theory Spec2Isabelle
  imports Main "HOL-Library.Multiset"
begin

section \<open>Values a test or a listener can throw\<close>

text \<open>
  The TypeScript sources type a caught value as \<^verbatim>\<open>Error | string\<close>. An error object is
  kept as the name of its constructor, the names of the classes that constructor extends
  (what \<^verbatim>\<open>instanceof\<close> walks), its \<^verbatim>\<open>name\<close> property and its message. A caught
  \<^verbatim>\<open>undefined\<close> or \<^verbatim>\<open>null\<close> is not a \<open>thrown\<close>: it has no property to read, and is kept
  apart (\<open>None\<close> of a \<open>thrown option\<close>, \<open>RejectedNullish\<close> below).
\<close>

record js_Error =
  ctor :: string
  supers :: "string list"
  name :: string
  message :: string

datatype thrown = Str string | Obj js_Error

text \<open>\<^verbatim>\<open>new Error(msg)\<close>\<close>

definition new_Error :: "string \<Rightarrow> thrown" where
  "new_Error msg = Obj \<lparr>ctor = ''Error'', supers = [], name = ''Error'', message = msg\<rparr>"

text \<open>
  JavaScript truthiness of a caught value (\<^verbatim>\<open>undefined\<close> is \<open>None\<close>): \<^verbatim>\<open>undefined\<close> and
  the empty string are falsy, every error object is truthy.
\<close>

fun truthy :: "thrown option \<Rightarrow> bool" where
  "truthy None = False"
| "truthy (Some (Str s)) = (s \<noteq> [])"
| "truthy (Some (Obj e)) = True"

text \<open>
  \<^verbatim>\<open>err instanceof C\<close> for a class named \<open>C\<close>: never for a string; an error object is an
  instance of \<^verbatim>\<open>Error\<close>, of its constructor and of every class the constructor extends.
\<close>

fun instanceof :: "thrown \<Rightarrow> string \<Rightarrow> bool" where
  "instanceof (Str s) C = False"
| "instanceof (Obj e) C = (C = ''Error'' \<or> C = ctor e \<or> C \<in> set (supers e))"

text \<open>\<^verbatim>\<open>err.message\<close>: \<^verbatim>\<open>undefined\<close> on a string.\<close>

fun message_of :: "thrown \<Rightarrow> string option" where
  "message_of (Str s) = None"
| "message_of (Obj e) = Some (message e)"

text \<open>\<^verbatim>\<open>typeof err === 'string' ? err : err.message\<close>\<close>

fun text_of :: "thrown \<Rightarrow> string" where
  "text_of (Str s) = s"
| "text_of (Obj e) = message e"

text \<open>\<^verbatim>\<open>err.constructor.name\<close>\<close>

fun constructor_name :: "thrown \<Rightarrow> string" where
  "constructor_name (Str s) = ''String''"
| "constructor_name (Obj e) = ctor e"

text \<open>
  The string a template literal makes of a caught value: a string is itself, an error
  object goes through \<^verbatim>\<open>Error.prototype.toString\<close>.
\<close>

fun to_string :: "thrown \<Rightarrow> string" where
  "to_string (Str s) = s"
| "to_string (Obj e) =
     (if name e = [] then message e
      else if message e = [] then name e
      else name e @ '': '' @ message e)"

text \<open>\<^verbatim>\<open>s.includes(t)\<close>: \<open>t\<close> occurs in \<open>s\<close> as a contiguous run.\<close>

fun str_includes :: "string \<Rightarrow> string \<Rightarrow> bool" where
  "str_includes [] t = (t = [])"
| "str_includes (c # cs) t = (take (length t) (c # cs) = t \<or> str_includes cs t)"

definition quoted :: "string \<Rightarrow> string" where
  "quoted s = [CHR 0x27] @ s @ [CHR 0x27]"

text \<open>
  The \<^verbatim>\<open>TypeError\<close> the runtime throws when a property is read off \<^verbatim>\<open>undefined\<close> or
  \<^verbatim>\<open>null\<close> (the wording of the message is the runtime's; nothing below depends on it).
\<close>

definition TypeError_reading :: "string \<Rightarrow> thrown" where
  "TypeError_reading property =
     Obj \<lparr>ctor = ''TypeError'', supers = [''Error''], name = ''TypeError'',
          message = ''Cannot read property '' @ quoted property @ '' of undefined''\<rparr>"

text \<open>
  What \<^verbatim>\<open>await Promise.race([invocation, timeout])\<close> settles with: the invocation returns,
  it throws (or rejects with) an error or a string, it throws (or rejects with)
  \<^verbatim>\<open>undefined\<close> or \<^verbatim>\<open>null\<close>, or the timer wins the race.
\<close>

datatype settled = Resolved | Rejected thrown | RejectedNullish | TimedOut

section \<open>service/executor.ts\<close>

record Counts =
  passed :: nat
  failed :: nat
  skipped :: nat
  total :: nat

definition BASE_COUNT :: Counts where
  "BASE_COUNT = \<lparr>passed = 0, failed = 0, skipped = 0, total = 0\<rparr>"

datatype XStatus = Passed | Failed | Skipped

record XTestConfig =
  xt_method :: string
  xt_description :: string

text \<open>
  A suite of the executor: \<^verbatim>\<open>suite.class.__filename\<close>, \<^verbatim>\<open>suite.class.name\<close>, the
  description, the tests, and the one instance all tests run against. \<open>xs_methods\<close> is
  the class body: \<^verbatim>\<open>suite.instance[name]()\<close> raced against the timer, as a function of the
  instance's state that also returns the state the call leaves behind.
\<close>

record 'i XSuiteConfig =
  xs_filename :: string
  xs_name :: string
  xs_description :: string
  xs_tests :: "XTestConfig list"
  xs_methods :: "string \<Rightarrow> 'i \<Rightarrow> settled \<times> 'i"
  xs_instance :: 'i

record XTestResult =
  xr_method :: string
  xr_description :: string
  xr_status :: XStatus
  xr_error :: "thrown option"

record XSuiteResult = Counts +
  xsr_file :: string
  xsr_class :: string
  xsr_description :: string
  xsr_tests :: "XTestResult list"

record SuitesResult = Counts +
  suites :: "XSuiteResult list"

text \<open>
  \<^verbatim>\<open>Executor.executeTest\<close>: a normal return is \<^verbatim>\<open>passed\<close>; anything caught is \<^verbatim>\<open>failed\<close>
  with the caught value as error (the timer rejects with \<^verbatim>\<open>undefined\<close>).
\<close>

definition Executor_executeTest ::
  "(string \<Rightarrow> 'i \<Rightarrow> settled \<times> 'i) \<Rightarrow> 'i \<Rightarrow> XTestConfig \<Rightarrow> XTestResult \<times> 'i" where
  "Executor_executeTest methods inst test =
     (case methods (xt_method test) inst of
        (Resolved, inst') \<Rightarrow>
          (\<lparr>xr_method = xt_method test, xr_description = xt_description test,
            xr_status = Passed, xr_error = None\<rparr>, inst')
      | (Rejected err, inst') \<Rightarrow>
          (\<lparr>xr_method = xt_method test, xr_description = xt_description test,
            xr_status = Failed, xr_error = Some err\<rparr>, inst')
      | (RejectedNullish, inst') \<Rightarrow>
          (\<lparr>xr_method = xt_method test, xr_description = xt_description test,
            xr_status = Failed, xr_error = None\<rparr>, inst')
      | (TimedOut, inst') \<Rightarrow>
          (\<lparr>xr_method = xt_method test, xr_description = xt_description test,
            xr_status = Failed, xr_error = None\<rparr>, inst'))"

text \<open>The \<^verbatim>\<open>switch (ret.status)\<close> of \<^verbatim>\<open>Executor.executeSuite\<close> and the push that follows.\<close>

definition count_status :: "XTestResult \<Rightarrow> XSuiteResult \<Rightarrow> XSuiteResult" where
  "count_status ret result =
     (let counted =
        (case xr_status ret of
           Passed \<Rightarrow> result\<lparr>passed := passed result + 1, total := total result + 1\<rparr>
         | Failed \<Rightarrow> result\<lparr>total := total result + 1, failed := failed result + 1\<rparr>
         | Skipped \<Rightarrow> result\<lparr>skipped := skipped result + 1\<rparr>)
      in counted\<lparr>xsr_tests := xsr_tests counted @ [ret]\<rparr>)"

fun Executor_executeSuite_loop ::
  "(string \<Rightarrow> 'i \<Rightarrow> settled \<times> 'i) \<Rightarrow> XTestConfig list \<Rightarrow> 'i \<Rightarrow> XSuiteResult \<Rightarrow> XSuiteResult" where
  "Executor_executeSuite_loop methods [] inst result = result"
| "Executor_executeSuite_loop methods (test # rest) inst result =
     (case Executor_executeTest methods inst test of
        (ret, inst') \<Rightarrow> Executor_executeSuite_loop methods rest inst' (count_status ret result))"

definition Executor_executeSuite :: "'i XSuiteConfig \<Rightarrow> XSuiteResult" where
  "Executor_executeSuite suite =
     Executor_executeSuite_loop (xs_methods suite) (xs_tests suite) (xs_instance suite)
       \<lparr>passed = 0, failed = 0, skipped = 0, total = 0,
        xsr_file = xs_filename suite, xsr_class = xs_name suite,
        xsr_description = xs_description suite, xsr_tests = []\<rparr>"

text \<open>
  \<^verbatim>\<open>Executor.merge(dest, src)\<close> mutates \<^verbatim>\<open>dest\<close>; the model returns the new \<^verbatim>\<open>dest\<close>. The
  source is a whole \<^verbatim>\<open>SuitesResult\<close> (its suites are appended) or one \<^verbatim>\<open>SuiteResult\<close>
  (it is appended itself); the four counters are added field by field.
\<close>

datatype merge_src = Suites SuitesResult | Single XSuiteResult

fun merge :: "SuitesResult \<Rightarrow> merge_src \<Rightarrow> SuitesResult" where
  "merge dest (Suites src) =
     dest\<lparr>suites := suites dest @ suites src,
          failed := failed dest + failed src,
          passed := passed dest + passed src,
          skipped := skipped dest + skipped src,
          total := total dest + total src\<rparr>"
| "merge dest (Single src) =
     dest\<lparr>suites := suites dest @ [src],
          failed := failed dest + failed src,
          passed := passed dest + passed src,
          skipped := skipped dest + skipped src,
          total := total dest + total src\<rparr>"

definition empty_results :: SuitesResult where
  "empty_results = \<lparr>passed = 0, failed = 0, skipped = 0, total = 0, suites = []\<rparr>"

text \<open>
  \<^verbatim>\<open>Executor.executeFile\<close>: the classes the file registers are given as the list of their
  suites (the effect of \<^verbatim>\<open>require\<close> and \<^verbatim>\<open>TestRegistry.init\<close>); each is run and merged.
\<close>

fun executeFile_loop :: "'i XSuiteConfig list \<Rightarrow> SuitesResult \<Rightarrow> SuitesResult" where
  "executeFile_loop [] suiteResults = suiteResults"
| "executeFile_loop (suite # rest) suiteResults =
     executeFile_loop rest (merge suiteResults (Single (Executor_executeSuite suite)))"

definition executeFile :: "'i XSuiteConfig list \<Rightarrow> SuitesResult" where
  "executeFile classes = executeFile_loop classes empty_results"

text \<open>\<^verbatim>\<open>static executors = os.cpus().length - 1\<close>\<close>

definition executors :: "nat \<Rightarrow> int" where
  "executors cpus = int cpus - 1"

text \<open>
  \<^verbatim>\<open>Executor.spawnFile(id, file)\<close>: the child process is another program; what it answers
  for a file is the parameter \<open>child\<close>, either the \<^verbatim>\<open>SuitesResult\<close> it sent or, when its
  exit is not valid, its standard error. \<open>spawnFile\<close> is what the promise for \<open>id\<close> settles
  with, given that answer: \<^verbatim>\<open>{ id, results }\<close>, or the \<^verbatim>\<open>Error\<close> thrown (\<open>Inl\<close>).
\<close>

record SpawnFile =
  sf_id :: nat
  sf_results :: SuitesResult

definition spawnFile :: "nat \<Rightarrow> string + SuitesResult \<Rightarrow> string + SpawnFile" where
  "spawnFile n answer =
     (case answer of
        Inl stderr \<Rightarrow> Inl stderr
      | Inr sent \<Rightarrow> Inr \<lparr>sf_id = n, sf_results = sent\<rparr>)"

text \<open>
  The state of the dispatch loop of \<^verbatim>\<open>Executor.exec\<close>: \<^verbatim>\<open>position\<close>, the \<^verbatim>\<open>pending\<close> map in
  insertion order (each key with the answer of the child spawned under it) and
  \<^verbatim>\<open>results\<close>. The map starts empty and every key set is a new position.
\<close>

record Dispatch =
  position :: nat
  pending :: "(nat \<times> (string + SuitesResult)) list"
  results :: SuitesResult

datatype iteration = Continue Dispatch | Rejects string | Blocked

text \<open>
  One pass through the body of the \<^verbatim>\<open>while\<close> loop. Which pending promise settles first
  is not decided by the program: \<open>first\<close> chooses it from the position and the pending
  keys, and every pending entry can be chosen. \<^verbatim>\<open>Promise.race\<close> over no promise at all
  never settles (\<open>Blocked\<close>); a rejected winner rejects the race.
\<close>

definition exec_iteration ::
  "int \<Rightarrow> (nat \<Rightarrow> nat list \<Rightarrow> nat) \<Rightarrow> (string \<Rightarrow> string + SuitesResult) \<Rightarrow> string list
     \<Rightarrow> Dispatch \<Rightarrow> iteration" where
  "exec_iteration bound first child files st =
     (if int (length (pending st)) < bound then
        let next = position st
        in Continue (st\<lparr>position := next + 1,
                        pending := pending st @ [(next, child (files ! next))]\<rparr>)
      else if pending st = [] then Blocked
      else
        (case pending st ! (first (position st) (map fst (pending st)) mod length (pending st)) of
           (n, answer) \<Rightarrow>
             (case spawnFile n answer of
                Inl stderr \<Rightarrow> Rejects stderr
              | Inr done \<Rightarrow>
                  Continue (st\<lparr>results := merge (results st) (Suites (sf_results done)),
                               pending := filter (\<lambda>p. fst p \<noteq> sf_id done) (pending st)\<rparr>))))"

text \<open>
  \<^verbatim>\<open>Promise.all\<close> over the pending promises: all their values in order, or a rejection
  (of several rejections the model reports the first in insertion order).
\<close>

fun await_all :: "(nat \<times> (string + SuitesResult)) list \<Rightarrow> string + SpawnFile list" where
  "await_all [] = Inr []"
| "await_all ((n, answer) # rest) =
     (case spawnFile n answer of
        Inl stderr \<Rightarrow> Inl stderr
      | Inr done \<Rightarrow>
          (case await_all rest of
             Inl stderr \<Rightarrow> Inl stderr
           | Inr final \<Rightarrow> Inr (done # final)))"

fun merge_all :: "SuitesResult \<Rightarrow> SpawnFile list \<Rightarrow> SuitesResult" where
  "merge_all rs [] = rs"
| "merge_all rs (done # final) = merge_all (merge rs (Suites (sf_results done))) final"

text \<open>
  How \<^verbatim>\<open>Executor.exec\<close> ends: the process exits with a code (after sending the single
  file's result to a parent, if there is one), the call returns the aggregate, it throws
  the standard error of a child, or it waits for ever.
\<close>

datatype exec_outcome =
    Exits nat SuitesResult
  | Returns SuitesResult
  | Throws string
  | NeverSettles

function exec_loop ::
  "int \<Rightarrow> (nat \<Rightarrow> nat list \<Rightarrow> nat) \<Rightarrow> (string \<Rightarrow> string + SuitesResult) \<Rightarrow> string list
     \<Rightarrow> Dispatch \<Rightarrow> exec_outcome" where
  "exec_loop bound first child files st =
     (if position st < length files then
        (case exec_iteration bound first child files st of
           Continue st' \<Rightarrow> exec_loop bound first child files st'
         | Rejects stderr \<Rightarrow> Throws stderr
         | Blocked \<Rightarrow> NeverSettles)
      else
        (case await_all (pending st) of
           Inl stderr \<Rightarrow> Throws stderr
         | Inr final \<Rightarrow> Returns (merge_all (results st) final)))"
  by pat_completeness auto

termination
proof (relation "measure (\<lambda>(bound, first, child, files, st).
                   2 * (length files - position st) + length (pending st))")
  show "wf (measure (\<lambda>(bound, first, child, files, st).
              2 * (length files - position st) + length (pending st)))"
    by simp
next
  fix bound :: int and first :: "nat \<Rightarrow> nat list \<Rightarrow> nat"
    and child :: "string \<Rightarrow> string + SuitesResult" and files :: "string list"
    and st st' :: Dispatch
  assume more: "position st < length files"
    and step: "exec_iteration bound first child files st = Continue st'"
  let ?k = "first (position st) (map fst (pending st)) mod length (pending st)"
  have "2 * (length files - position st') + length (pending st')
        < 2 * (length files - position st) + length (pending st)"
  proof (cases "int (length (pending st)) < bound")
    case True
    with step have "st' = st\<lparr>position := position st + 1,
        pending := pending st @ [(position st, child (files ! position st))]\<rparr>"
      by (auto simp: exec_iteration_def Let_def)
    with more show ?thesis by simp
  next
    case False
    with step have nonempty: "pending st \<noteq> []"
      by (auto simp: exec_iteration_def Let_def)
    then have k: "?k < length (pending st)" by simp
    obtain n answer where picked: "pending st ! ?k = (n, answer)"
      by (cases "pending st ! ?k")
    with step False nonempty obtain sent where
      st': "st' = st\<lparr>results := merge (results st) (Suites sent),
                      pending := filter (\<lambda>p. fst p \<noteq> n) (pending st)\<rparr>"
      by (auto simp: exec_iteration_def Let_def spawnFile_def split: sum.splits)
    from k picked have "(n, answer) \<in> set (pending st)"
      by (metis nth_mem)
    then have "length (filter (\<lambda>p. fst p \<noteq> n) (pending st)) < length (pending st)"
      by (intro length_filter_less[where x = "(n, answer)"]) simp_all
    with st' show ?thesis by simp
  qed
  then show "((bound, first, child, files, st'), (bound, first, child, files, st))
             \<in> measure (\<lambda>(bound, first, child, files, st).
                   2 * (length files - position st) + length (pending st))"
    by simp
qed

text \<open>
  \<^verbatim>\<open>Executor.exec\<close>, from the list of test files found (already made relative to the
  working directory). \<open>load\<close> gives the suites a file registers when it is required.
\<close>

definition exec ::
  "nat \<Rightarrow> (nat \<Rightarrow> nat list \<Rightarrow> nat) \<Rightarrow> (string \<Rightarrow> 'i XSuiteConfig list)
     \<Rightarrow> (string \<Rightarrow> string + SuitesResult) \<Rightarrow> string list \<Rightarrow> exec_outcome" where
  "exec cpus first load child files =
     (case files of
        [file] \<Rightarrow> Exits 0 (executeFile (load file))
      | _ \<Rightarrow> exec_loop (executors cpus) first child files
               \<lparr>position = 0, pending = [], results = empty_results\<rparr>)"

section \<open>The runner's data model\<close>

text \<open>
  The declarations of these types (\<^verbatim>\<open>../model\<close>) are not among the sources; the records
  have the fields the functions below read and write. Line numbers and counters are
  natural numbers: the code only ever counts up from 0.
\<close>

record Lines =
  line_start :: nat
  line_end :: nat

record Assertion =
  a_className :: "string option"
  a_methodName :: "string option"
  a_file :: string
  a_line :: nat
  a_operator :: string
  a_text :: string
  a_message :: "string option"
  a_error :: "thrown option"

text \<open>
  \<^verbatim>\<open>shouldError\<close> of runner/execute.ts: a constructor name, a pattern (its source and its
  \<^verbatim>\<open>test\<close>) or a predicate of the test's author, applied to whatever was caught, which may
  itself throw.
\<close>

datatype ShouldError =
    SeString string
  | SeRegExp string "string \<Rightarrow> bool"
  | SeFunction "thrown option \<Rightarrow> thrown + bool"

text \<open>
  \<^verbatim>\<open>shouldThrow\<close> of runner/execute/execute.ts: a boolean, a substring, a pattern, an error
  class (by name) or a plain function applied to the caught value, whose return value
  becomes the error and which may itself throw.
\<close>

datatype ShouldThrow =
    StBoolean bool
  | StString string
  | StRegExp string "string \<Rightarrow> bool"
  | StClass string
  | StFunction "thrown option \<Rightarrow> thrown + thrown option"

text \<open>
  A test as registered. The reference to its class only serves to look the suite up in
  the registry and is left out: the suite is passed along instead. \<^verbatim>\<open>shouldError\<close> is
  read by the earlier revision of the runner, \<^verbatim>\<open>shouldThrow\<close> by the later one.
\<close>

record TestConfig =
  tc_className :: string
  tc_methodName :: string
  tc_description :: string
  tc_file :: string
  tc_lines :: Lines
  tc_skip :: bool
  shouldError :: "ShouldError option"
  shouldThrow :: "ShouldThrow option"
  tc_timeout :: "nat option"

datatype Status = Success | Fail | Skip

record TestResult =
  status :: Status
  tr_methodName :: string
  tr_description :: string
  tr_className :: string
  tr_lines :: Lines
  tr_file :: string
  error :: "thrown option"
  assertions :: "Assertion list option"
  tr_output :: "(string \<times> string) list option"

record SuiteResult =
  success :: nat
  fail :: nat
  skip :: nat
  total :: nat
  sr_lines :: Lines
  sr_file :: string
  sr_className :: string
  tests :: "TestResult list"

text \<open>
  What one call of a test method does while the capture scopes are open: how the race
  against the timer settles, the assertions the method made through the capture (each is
  also sent to the consumer as it is made), what it printed, and the state it leaves the
  suite's instance in.
\<close>

record 'i Invocation =
  settles :: settled
  asserted :: "Assertion list"
  printed :: "(string \<times> string) list"
  leaves :: 'i

text \<open>
  A suite: its lifecycle listeners per phase (each raced against the timer on the shared
  instance), its tests, the class body \<open>sc_methods\<close> (\<^verbatim>\<open>suite.instance[methodName]()\<close>) and
  the instance, created once and reused by every listener and test.
\<close>

record 'i SuiteConfig =
  sc_className :: string
  sc_file :: string
  sc_lines :: Lines
  beforeAll :: "('i \<Rightarrow> settled \<times> 'i) list"
  beforeEach :: "('i \<Rightarrow> settled \<times> 'i) list"
  afterAll :: "('i \<Rightarrow> settled \<times> 'i) list"
  afterEach :: "('i \<Rightarrow> settled \<times> 'i) list"
  sc_tests :: "TestConfig list"
  sc_methods :: "string \<Rightarrow> 'i \<Rightarrow> 'i Invocation"
  sc_instance :: 'i

text \<open>The events \<^verbatim>\<open>consumer.onEvent\<close> receives, each with the value it carries when sent.\<close>

datatype 'i Event =
    SuiteBefore "'i SuiteConfig"
  | SuiteAfter SuiteResult
  | TestBefore TestConfig
  | AssertionAfter Assertion
  | TestAfter TestResult

datatype SuitePhase = BeforeAll | BeforeEach | AfterAll | AfterEach

text \<open>
  The state a suite run threads through its steps: the events sent so far, the
  instance, and the \<^verbatim>\<open>SuiteResult\<close> under construction. \<open>phases\<close> is not state of the
  program: it records, for each phase the run has gone through, in order, how the loop
  over that phase's listeners ended, so that statements can speak of a listener that
  threw or timed out during the run.
\<close>

record 'i Run =
  events :: "'i Event list"
  inst :: 'i
  result :: SuiteResult
  phases :: "(SuitePhase \<times> settled) list"

text \<open>What a \<^verbatim>\<open>catch\<close> of the suite run receives: the breakout symbol or a thrown value.\<close>

datatype exn = BREAKOUT | Uncaught thrown

fun phase_name :: "SuitePhase \<Rightarrow> string" where
  "phase_name BeforeAll = ''beforeAll''"
| "phase_name BeforeEach = ''beforeEach''"
| "phase_name AfterAll = ''afterAll''"
| "phase_name AfterEach = ''afterEach''"

text \<open>\<^verbatim>\<open>suite[phase]\<close>\<close>

fun listeners :: "SuitePhase \<Rightarrow> 'i SuiteConfig \<Rightarrow> ('i \<Rightarrow> settled \<times> 'i) list" where
  "listeners BeforeAll suite = beforeAll suite"
| "listeners BeforeEach suite = beforeEach suite"
| "listeners AfterAll suite = afterAll suite"
| "listeners AfterEach suite = afterEach suite"

text \<open>\<^verbatim>\<open>result[ret.status]++; result.tests.push(ret)\<close>\<close>

definition record_test :: "TestResult \<Rightarrow> SuiteResult \<Rightarrow> SuiteResult" where
  "record_test ret r =
     (let counted =
        (case status ret of
           Success \<Rightarrow> r\<lparr>success := success r + 1\<rparr>
         | Fail \<Rightarrow> r\<lparr>fail := fail r + 1\<rparr>
         | Skip \<Rightarrow> r\<lparr>skip := skip r + 1\<rparr>)
      in counted\<lparr>tests := tests counted @ [ret]\<rparr>)"

definition initial_result :: "'i SuiteConfig \<Rightarrow> SuiteResult" where
  "initial_result suite =
     \<lparr>success = 0, fail = 0, skip = 0, total = 0,
      sr_lines = sc_lines suite, sr_file = sc_file suite,
      sr_className = sc_className suite, tests = []\<rparr>"

section \<open>runner/execute.ts\<close>

text \<open>
  \<^verbatim>\<open>AssertUtil.readFilePosition(err, file)\<close> is not among the sources: it reads a file and a
  line off the error's stack. Every function that calls it takes it as the parameter
  \<open>rfp\<close>, so what is proved holds for whatever it returns.
\<close>

type_synonym readFilePosition = "thrown \<Rightarrow> string \<Rightarrow> string \<times> nat"

text \<open>
  \<^verbatim>\<open>ExecuteUtil.generateSuiteError\<close>, for an error that has properties: the suite-level
  failure, the three events it sends, and the \<^verbatim>\<open>badTest\<close> it returns. Called with
  \<^verbatim>\<open>undefined\<close> or \<^verbatim>\<open>null\<close> it throws instead, before anything is sent: building
  \<^verbatim>\<open>badAssert\<close> reads \<^verbatim>\<open>error.message\<close> (if \<^verbatim>\<open>readFilePosition\<close> should throw on such a value
  first, it is that error which leaves the function). That case is written where it can
  arise, in \<open>affixProcess\<close>.
\<close>

definition generateSuiteError ::
  "readFilePosition \<Rightarrow> 'i SuiteConfig \<Rightarrow> string \<Rightarrow> thrown \<Rightarrow> 'i Event list \<times> TestResult" where
  "generateSuiteError rfp suite description err =
     (case rfp err (sc_file suite) of (file, line) \<Rightarrow>
        let badAssert =
              \<lparr>a_className = None, a_methodName = None, a_file = file, a_line = line,
               a_operator = ''throws'', a_text = ''(outer)'',
               a_message = message_of err, a_error = Some err\<rparr>;
            badTest =
              \<lparr>status = Fail, tr_methodName = description, tr_description = description,
               tr_className = sc_className suite,
               tr_lines = \<lparr>line_start = line, line_end = line\<rparr>, tr_file = file,
               error = Some err, assertions = Some [badAssert], tr_output = Some []\<rparr>;
            badTestConfig =
              \<lparr>tc_className = tr_className badTest, tc_methodName = tr_methodName badTest,
               tc_description = tr_description badTest, tc_file = tr_file badTest,
               tc_lines = tr_lines badTest, tc_skip = False,
               shouldError = None, shouldThrow = None, tc_timeout = None\<rparr>
        in ([TestBefore badTestConfig, AssertionAfter badAssert, TestAfter badTest], badTest))"

text \<open>
  The \<^verbatim>\<open>for\<close> loop of \<^verbatim>\<open>affixProcess\<close>: each listener is raced against the timer on the
  instance; the first that does not resolve ends the loop with what it settled with.
\<close>

fun run_listeners :: "('i \<Rightarrow> settled \<times> 'i) list \<Rightarrow> 'i \<Rightarrow> settled \<times> 'i" where
  "run_listeners [] i = (Resolved, i)"
| "run_listeners (fn # fns) i =
     (case fn i of
        (Resolved, i') \<Rightarrow> run_listeners fns i'
      | (Rejected err, i') \<Rightarrow> (Rejected err, i')
      | (RejectedNullish, i') \<Rightarrow> (RejectedNullish, i')
      | (TimedOut, i') \<Rightarrow> (TimedOut, i'))"

text \<open>
  \<^verbatim>\<open>ExecuteUtil.affixProcess\<close>: returns \<open>None\<close> when every listener resolved; otherwise the
  suite error is generated under the phase's name, pushed onto \<^verbatim>\<open>result.tests\<close>, and
  \<^verbatim>\<open>BREAKOUT\<close> is thrown. When the listener rejected with \<^verbatim>\<open>undefined\<close> or \<^verbatim>\<open>null\<close>,
  \<^verbatim>\<open>generateSuiteError\<close> throws its \<^verbatim>\<open>TypeError\<close> inside the \<^verbatim>\<open>catch\<close> block: nothing is sent
  or pushed, and that error leaves \<^verbatim>\<open>affixProcess\<close> in place of the breakout.
\<close>

definition affixProcess ::
  "readFilePosition \<Rightarrow> SuitePhase \<Rightarrow> 'i SuiteConfig \<Rightarrow> 'i Run \<Rightarrow> exn option \<times> 'i Run" where
  "affixProcess rfp phase suite st =
     (case run_listeners (listeners phase suite) (inst st) of
        (Resolved, i') \<Rightarrow>
          (None, st\<lparr>inst := i', phases := phases st @ [(phase, Resolved)]\<rparr>)
      | (RejectedNullish, i') \<Rightarrow>
          (Some (Uncaught (TypeError_reading ''message'')),
           st\<lparr>inst := i', phases := phases st @ [(phase, RejectedNullish)]\<rparr>)
      | (caught, i') \<Rightarrow>
          let err = (case caught of
                       Rejected e \<Rightarrow> e
                     | _ \<Rightarrow> new_Error (sc_className suite @ '': '' @ phase_name phase @ '' timed out''))
          in case generateSuiteError rfp suite (phase_name phase) err of (evs, res) \<Rightarrow>
               (Some BREAKOUT,
                st\<lparr>inst := i', events := events st @ evs,
                   result := (result st)\<lparr>tests := tests (result st) @ [res]\<rparr>,
                   phases := phases st @ [(phase, caught)]\<rparr>))"

text \<open>
  \<^verbatim>\<open>ExecuteUtil.checkError\<close> of this file (the \<^verbatim>\<open>shouldError\<close> revision). \<open>Inl\<close> is an
  exception leaving the function, \<open>Inr None\<close> a plain \<^verbatim>\<open>return\<close> (or the return of a
  caught \<^verbatim>\<open>undefined\<close>). On a caught \<^verbatim>\<open>undefined\<close> or \<^verbatim>\<open>null\<close> the reads of
  \<^verbatim>\<open>err.constructor\<close> and \<^verbatim>\<open>err.message\<close> throw.
\<close>

definition checkError_rev1 :: "TestConfig \<Rightarrow> thrown option \<Rightarrow> thrown + thrown option" where
  "checkError_rev1 test err =
     (case shouldError test of
        None \<Rightarrow> Inr err
      | Some (SeString s) \<Rightarrow>
          if s = [] then Inr err
          else (case err of
                  None \<Rightarrow> Inl (TypeError_reading ''constructor'')
                | Some e \<Rightarrow>
                    if constructor_name e = s then Inr None
                    else Inr (Some (new_Error (''Expected error to be of type '' @ s))))
      | Some (SeRegExp source matches) \<Rightarrow>
          (case err of
             None \<Rightarrow> Inl (TypeError_reading ''message'')
           | Some e \<Rightarrow>
               if matches (text_of e) then Inr None
               else Inr (Some (new_Error (''Expected error to match '' @ source))))
      | Some (SeFunction f) \<Rightarrow>
          (case f err of
             Inl thrown_by_f \<Rightarrow> Inl thrown_by_f
           | Inr ok \<Rightarrow> if ok then Inr None else Inr err))"

text \<open>
  \<^verbatim>\<open>ExecuteUtil.executeTest\<close> of this file. It returns the events sent, the instance
  afterwards, and either the \<^verbatim>\<open>TestResult\<close> or (\<open>Inl\<close>) the exception that left it.
\<close>

definition executeTest_rev1 ::
  "readFilePosition \<Rightarrow> (string \<Rightarrow> 'i \<Rightarrow> 'i Invocation) \<Rightarrow> 'i \<Rightarrow> TestConfig
     \<Rightarrow> 'i Event list \<times> 'i \<times> (thrown + TestResult)" where
  "executeTest_rev1 rfp methods i test =
     (let res = \<lparr>status = Skip, tr_methodName = tc_methodName test,
                 tr_description = tc_description test, tr_className = tc_className test,
                 tr_lines = tc_lines test, tr_file = tc_file test,
                 error = None, assertions = None, tr_output = None\<rparr>
      in if tc_skip test then ([TestBefore test], i, Inr res)
         else
           let run = methods (tc_methodName test) i;
               evs = TestBefore test # map AssertionAfter (asserted run);
               checked = (case settles run of
                            Resolved \<Rightarrow> Inr None
                          | TimedOut \<Rightarrow> Inr (Some (new_Error ''Operation timed out''))
                          | Rejected err \<Rightarrow> checkError_rev1 test (Some err)
                          | RejectedNullish \<Rightarrow> checkError_rev1 test None)
           in case checked of
                Inl thrown_by_check \<Rightarrow> (evs, leaves run, Inl thrown_by_check)
              | Inr err \<Rightarrow>
                  let captured = res\<lparr>tr_output := Some (printed run),
                                     assertions := Some (asserted run)\<rparr>;
                      final =
                        (case err of
                           None \<Rightarrow> captured\<lparr>status := Success\<rparr>
                         | Some e \<Rightarrow>
                             if \<not> truthy (Some e) then captured\<lparr>status := Success\<rparr>
                             else
                               let failing = captured\<lparr>status := Fail, error := Some e\<rparr>
                               in if instanceof e ''AssertionError'' then failing
                                  else case rfp e (tc_file test) of (file, line) \<Rightarrow>
                                    failing\<lparr>assertions := Some (asserted run @
                                      [\<lparr>a_className = None, a_methodName = None,
                                        a_file = file, a_line = line,
                                        a_operator = ''throws'', a_text = ''(uncaught)'',
                                        a_message = message_of e, a_error = Some e\<rparr>])\<rparr>)
                  in (evs @ [TestAfter final], leaves run, Inr final))"

text \<open>The body of the \<^verbatim>\<open>for\<close> loop of \<^verbatim>\<open>executeSuite\<close>, over the tests still to run.\<close>

fun executeSuite_rev1_loop ::
  "readFilePosition \<Rightarrow> 'i SuiteConfig \<Rightarrow> TestConfig list \<Rightarrow> 'i Run \<Rightarrow> exn option \<times> 'i Run" where
  "executeSuite_rev1_loop rfp suite [] st = (None, st)"
| "executeSuite_rev1_loop rfp suite (testConfig # rest) st =
     (case affixProcess rfp BeforeEach suite st of
        (Some e, st1) \<Rightarrow> (Some e, st1)
      | (None, st1) \<Rightarrow>
          (case executeTest_rev1 rfp (sc_methods suite) (inst st1) testConfig of
             (evs, i2, Inl err) \<Rightarrow>
               (Some (Uncaught err), st1\<lparr>events := events st1 @ evs, inst := i2\<rparr>)
           | (evs, i2, Inr ret) \<Rightarrow>
               (case affixProcess rfp AfterEach suite
                       (st1\<lparr>events := events st1 @ evs, inst := i2,
                            result := record_test ret (result st1)\<rparr>) of
                  (Some e, st3) \<Rightarrow> (Some e, st3)
                | (None, st3) \<Rightarrow> executeSuite_rev1_loop rfp suite rest st3)))"

text \<open>The \<^verbatim>\<open>try\<close> block of \<^verbatim>\<open>executeSuite\<close>: \<open>Some e\<close> when \<open>e\<close> reaches the \<^verbatim>\<open>catch\<close>.\<close>

definition executeSuite_rev1_try ::
  "readFilePosition \<Rightarrow> 'i SuiteConfig \<Rightarrow> 'i Run \<Rightarrow> exn option \<times> 'i Run" where
  "executeSuite_rev1_try rfp suite st =
     (case affixProcess rfp BeforeAll suite st of
        (Some e, st1) \<Rightarrow> (Some e, st1)
      | (None, st1) \<Rightarrow>
          (case executeSuite_rev1_loop rfp suite (sc_tests suite) st1 of
             (Some e, st2) \<Rightarrow> (Some e, st2)
           | (None, st2) \<Rightarrow> affixProcess rfp AfterAll suite st2))"

text \<open>The \<^verbatim>\<open>catch\<close> block: a breakout is done; anything else becomes the suite error \<^verbatim>\<open>all\<close>.\<close>

definition executeSuite_rev1_catch ::
  "readFilePosition \<Rightarrow> 'i SuiteConfig \<Rightarrow> exn option \<times> 'i Run \<Rightarrow> 'i Run" where
  "executeSuite_rev1_catch rfp suite tried =
     (case tried of
        (Some (Uncaught err), st) \<Rightarrow>
          (case generateSuiteError rfp suite ''all'' err of (evs, res) \<Rightarrow>
             st\<lparr>events := events st @ evs,
                result := (result st)\<lparr>tests := tests (result st) @ [res]\<rparr>\<rparr>)
      | (_, st) \<Rightarrow> st)"

text \<open>
  \<^verbatim>\<open>ExecuteUtil.executeSuite\<close> of this file: the run starts from the \<^verbatim>\<open>before\<close> event and
  the zeroed result; the \<^verbatim>\<open>after\<close> event is sent with the result as it is then, and
  \<^verbatim>\<open>total\<close> is assigned afterwards. The \<open>result\<close> of the returned state is the function's
  return value.
\<close>

definition initial_run :: "'i SuiteConfig \<Rightarrow> 'i Run" where
  "initial_run suite =
     \<lparr>events = [SuiteBefore suite], inst = sc_instance suite, result = initial_result suite,
      phases = []\<rparr>"

definition executeSuite_rev1 :: "readFilePosition \<Rightarrow> 'i SuiteConfig \<Rightarrow> 'i Run" where
  "executeSuite_rev1 rfp suite =
     (let st1 = executeSuite_rev1_catch rfp suite
                  (executeSuite_rev1_try rfp suite (initial_run suite));
          st2 = st1\<lparr>events := events st1 @ [SuiteAfter (result st1)]\<rparr>
      in st2\<lparr>result := (result st2)\<lparr>total := success (result st2) + fail (result st2)\<rparr>\<rparr>)"

section \<open>runner/execute/execute.ts\<close>

text \<open>
  Modelled from the spec: \<^verbatim>\<open>AssertUtil.add\<close> (the capture is not among the sources).
  Section 4.1: an assertion made inside the scope is appended to the scope's ordered
  sequence and the callback given to \<^verbatim>\<open>start\<close> is invoked with it at once; \<^verbatim>\<open>end\<close> returns
  the sequence. The capture is the pair of the sequence and the events sent.
\<close>

definition AssertUtil_add ::
  "Assertion \<Rightarrow> Assertion list \<times> 'i Event list \<Rightarrow> Assertion list \<times> 'i Event list" where
  "AssertUtil_add a cap = (fst cap @ [a], snd cap @ [AssertionAfter a])"

text \<open>\<^verbatim>\<open>if (test.shouldThrow)\<close>: absent, \<^verbatim>\<open>false\<close> and the empty string are falsy.\<close>

fun shouldThrow_truthy :: "ShouldThrow option \<Rightarrow> bool" where
  "shouldThrow_truthy None = False"
| "shouldThrow_truthy (Some (StBoolean b)) = b"
| "shouldThrow_truthy (Some (StString s)) = (s \<noteq> [])"
| "shouldThrow_truthy (Some _) = True"

text \<open>The \<^verbatim>\<open>actual\<close> of \<^verbatim>\<open>checkError\<close>: what was caught, quoted, or \<^verbatim>\<open>nothing\<close>.\<close>

fun actual :: "thrown option \<Rightarrow> string" where
  "actual (Some (Obj e)) = quoted (message e)"
| "actual (Some (Str s)) = (if s = [] then ''nothing'' else quoted s)"
| "actual None = ''nothing''"

text \<open>\<^verbatim>\<open>err || 'nothing'\<close> inside a template literal.\<close>

fun or_nothing :: "thrown option \<Rightarrow> string" where
  "or_nothing (Some (Obj e)) = to_string (Obj e)"
| "or_nothing (Some (Str s)) = (if s = [] then ''nothing'' else s)"
| "or_nothing None = ''nothing''"

text \<open>\<^verbatim>\<open>!err || !p(err)\<close>: the second operand is evaluated on a truthy \<^verbatim>\<open>err\<close> only.\<close>

fun falsy_or_not :: "thrown option \<Rightarrow> (thrown \<Rightarrow> bool) \<Rightarrow> bool" where
  "falsy_or_not None p = True"
| "falsy_or_not (Some e) p = (if truthy (Some e) then \<not> p e else True)"

text \<open>
  \<^verbatim>\<open>ExecuteUtil.checkError\<close> of this file. \<open>Inl\<close> is an exception leaving the function (the
  boolean branch throws its errors, the others return theirs), \<open>Inr None\<close> is returning
  \<^verbatim>\<open>undefined\<close>. The last two branches are told apart by the prototype of \<^verbatim>\<open>st\<close>: an error
  class is matched with \<^verbatim>\<open>instanceof\<close>, a plain function is called. With \<^verbatim>\<open>shouldThrow\<close>
  absent the prototype lookup on \<^verbatim>\<open>undefined\<close> throws.
\<close>

definition checkError :: "TestConfig \<Rightarrow> thrown option \<Rightarrow> thrown + thrown option" where
  "checkError test err =
     (case shouldThrow test of
        Some (StBoolean st) \<Rightarrow>
          if truthy err \<and> \<not> st then Inl (new_Error ''Expected an error to not be thrown'')
          else if \<not> truthy err \<and> st then Inl (new_Error ''Expected an error to be thrown'')
          else Inr None
      | Some (StString st) \<Rightarrow>
          if falsy_or_not err (\<lambda>e. str_includes (text_of e) st)
          then Inr (Some (new_Error (''Expected error containing text '' @ quoted st
                                      @ '', but got '' @ actual err)))
          else Inr None
      | Some (StRegExp source matches) \<Rightarrow>
          if falsy_or_not err (\<lambda>e. matches (text_of e))
          then Inr (Some (new_Error (''Expected error with message matching '' @ quoted source
                                      @ '', but got '' @ actual err)))
          else Inr None
      | Some (StClass cls) \<Rightarrow>
          if falsy_or_not err (\<lambda>e. instanceof e cls)
          then Inr (Some (new_Error (''Expected to throw '' @ cls @ '', but got ''
                                      @ or_nothing err)))
          else Inr None
      | Some (StFunction st) \<Rightarrow> st err
      | None \<Rightarrow>
          Inl (Obj \<lparr>ctor = ''TypeError'', supers = [''Error''], name = ''TypeError'',
                    message = ''Cannot convert undefined or null to object''\<rparr>))"

text \<open>
  The assertion \<^verbatim>\<open>executeTest\<close> adds for an error that is not an \<^verbatim>\<open>AssertionError\<close>: the
  line comes from the error's position, or from the test's first line when that is 1.
\<close>

definition uncaught :: "readFilePosition \<Rightarrow> TestConfig \<Rightarrow> thrown \<Rightarrow> Assertion" where
  "uncaught rfp test err =
     (let line = snd (rfp err (tc_file test));
          line = (if line = 1 then line_start (tc_lines test) else line)
      in \<lparr>a_className = Some (tc_className test), a_methodName = Some (tc_methodName test),
          a_file = tc_file test, a_line = line,
          a_operator = ''throws'', a_text = ''(uncaught)'',
          a_message = message_of err, a_error = Some err\<rparr>)"

text \<open>
  \<^verbatim>\<open>ExecuteUtil.executeTest\<close> of this file. The \<^verbatim>\<open>try\<close> block always ends in the
  \<^verbatim>\<open>catch\<close>: with the timeout symbol, with what the method threw, or with the
  \<^verbatim>\<open>undefined\<close> thrown after a normal return, from which a method that itself threw
  \<^verbatim>\<open>undefined\<close> or \<^verbatim>\<open>null\<close> is not told apart. An exception of \<^verbatim>\<open>checkError\<close> leaves
  the \<^verbatim>\<open>catch\<close> block and, after the \<^verbatim>\<open>finally\<close>, the function (\<open>Inl\<close>): no result is
  returned and no \<^verbatim>\<open>after\<close> event is sent.
\<close>

definition executeTest ::
  "readFilePosition \<Rightarrow> (string \<Rightarrow> 'i \<Rightarrow> 'i Invocation) \<Rightarrow> 'i \<Rightarrow> TestConfig
     \<Rightarrow> 'i Event list \<times> 'i \<times> (thrown + TestResult)" where
  "executeTest rfp methods i test =
     (let res = \<lparr>status = Skip, tr_methodName = tc_methodName test,
                 tr_description = tc_description test, tr_className = tc_className test,
                 tr_lines = tc_lines test, tr_file = tc_file test,
                 error = None, assertions = None, tr_output = None\<rparr>
      in if tc_skip test then ([TestBefore test], i, Inr res)
         else
           let run = methods (tc_methodName test) i;
               cap = (asserted run, TestBefore test # map AssertionAfter (asserted run));
               checked = (case settles run of
                            TimedOut \<Rightarrow> Inr (Some (new_Error ''Operation timed out''))
                          | Resolved \<Rightarrow>
                              if shouldThrow_truthy (shouldThrow test) then checkError test None
                              else Inr None
                          | RejectedNullish \<Rightarrow>
                              if shouldThrow_truthy (shouldThrow test) then checkError test None
                              else Inr None
                          | Rejected err \<Rightarrow>
                              if shouldThrow_truthy (shouldThrow test)
                              then checkError test (Some err)
                              else Inr (Some err))
           in case checked of
                Inl thrown_by_check \<Rightarrow> (snd cap, leaves run, Inl thrown_by_check)
              | Inr err \<Rightarrow>
                  let passing = res\<lparr>status := Success, tr_output := Some (printed run),
                                     assertions := Some (fst cap)\<rparr>
                  in case err of
                       None \<Rightarrow> (snd cap @ [TestAfter passing], leaves run, Inr passing)
                     | Some e \<Rightarrow>
                         if \<not> truthy (Some e)
                         then (snd cap @ [TestAfter passing], leaves run, Inr passing)
                         else
                           let cap' = (if instanceof e ''AssertionError'' then cap
                                       else AssertUtil_add (uncaught rfp test e) cap);
                               final = res\<lparr>status := Fail, error := Some e,
                                          tr_output := Some (printed run),
                                          assertions := Some (fst cap')\<rparr>
                           in (snd cap' @ [TestAfter final], leaves run, Inr final))"

text \<open>
  Modelled from the spec: \<^verbatim>\<open>ExecutionPhaseManager\<close> (\<^verbatim>\<open>./phase\<close> is not among the sources).
  Section 4.4: \<^verbatim>\<open>startPhase\<close> runs the \<^verbatim>\<open>beforeAll\<close> or \<^verbatim>\<open>beforeEach\<close> listeners and \<^verbatim>\<open>endPhase\<close>
  the \<^verbatim>\<open>afterAll\<close> or \<^verbatim>\<open>afterEach\<close> ones, in order, on the suite's instance, each raced
  against the timer; when one throws or times out the manager records one suite-level
  result (status \<^verbatim>\<open>fail\<close>, method name the phase name, a single assertion \<^verbatim>\<open>throws\<close> with
  text \<^verbatim>\<open>(outer)\<close>) and signals the breakout. That is what \<open>affixProcess\<close> of the earlier
  revision does. On the breakout \<^verbatim>\<open>onError\<close> has nothing left to record; any other error
  becomes one more suite-level failure.
\<close>

datatype PhaseLevel = PhaseAll | PhaseEach

definition startPhase ::
  "readFilePosition \<Rightarrow> PhaseLevel \<Rightarrow> 'i SuiteConfig \<Rightarrow> 'i Run \<Rightarrow> exn option \<times> 'i Run" where
  "startPhase rfp level suite st =
     affixProcess rfp (case level of PhaseAll \<Rightarrow> BeforeAll | PhaseEach \<Rightarrow> BeforeEach) suite st"

definition endPhase ::
  "readFilePosition \<Rightarrow> PhaseLevel \<Rightarrow> 'i SuiteConfig \<Rightarrow> 'i Run \<Rightarrow> exn option \<times> 'i Run" where
  "endPhase rfp level suite st =
     affixProcess rfp (case level of PhaseAll \<Rightarrow> AfterAll | PhaseEach \<Rightarrow> AfterEach) suite st"

definition onError :: "readFilePosition \<Rightarrow> 'i SuiteConfig \<Rightarrow> exn \<Rightarrow> 'i Run \<Rightarrow> 'i Run" where
  "onError rfp suite e st =
     (case e of
        BREAKOUT \<Rightarrow> st
      | Uncaught err \<Rightarrow>
          (case generateSuiteError rfp suite ''all'' err of (evs, res) \<Rightarrow>
             st\<lparr>events := events st @ evs,
                result := (result st)\<lparr>tests := tests (result st) @ [res]\<rparr>\<rparr>))"

text \<open>
  \<^verbatim>\<open>ExecuteUtil.executeSuite\<close> of this file: the loop over the tests, the \<^verbatim>\<open>try\<close> block, and
  the function. An exception that leaves \<^verbatim>\<open>executeTest\<close> reaches the \<^verbatim>\<open>catch\<close> like a
  breakout does.
\<close>

fun executeSuite_loop ::
  "readFilePosition \<Rightarrow> 'i SuiteConfig \<Rightarrow> TestConfig list \<Rightarrow> 'i Run \<Rightarrow> exn option \<times> 'i Run" where
  "executeSuite_loop rfp suite [] st = (None, st)"
| "executeSuite_loop rfp suite (testConfig # rest) st =
     (case startPhase rfp PhaseEach suite st of
        (Some e, st1) \<Rightarrow> (Some e, st1)
      | (None, st1) \<Rightarrow>
          (case executeTest rfp (sc_methods suite) (inst st1) testConfig of
             (evs, i2, Inl err) \<Rightarrow>
               (Some (Uncaught err), st1\<lparr>events := events st1 @ evs, inst := i2\<rparr>)
           | (evs, i2, Inr ret) \<Rightarrow>
               (case endPhase rfp PhaseEach suite
                       (st1\<lparr>events := events st1 @ evs, inst := i2,
                            result := record_test ret (result st1)\<rparr>) of
                  (Some e, st3) \<Rightarrow> (Some e, st3)
                | (None, st3) \<Rightarrow> executeSuite_loop rfp suite rest st3)))"

definition executeSuite_try ::
  "readFilePosition \<Rightarrow> 'i SuiteConfig \<Rightarrow> 'i Run \<Rightarrow> exn option \<times> 'i Run" where
  "executeSuite_try rfp suite st =
     (case startPhase rfp PhaseAll suite st of
        (Some e, st1) \<Rightarrow> (Some e, st1)
      | (None, st1) \<Rightarrow>
          (case executeSuite_loop rfp suite (sc_tests suite) st1 of
             (Some e, st2) \<Rightarrow> (Some e, st2)
           | (None, st2) \<Rightarrow> endPhase rfp PhaseAll suite st2))"

definition executeSuite :: "readFilePosition \<Rightarrow> 'i SuiteConfig \<Rightarrow> 'i Run" where
  "executeSuite rfp suite =
     (let st1 = (case executeSuite_try rfp suite (initial_run suite) of
                   (None, st) \<Rightarrow> st
                 | (Some e, st) \<Rightarrow> onError rfp suite e st);
          st2 = st1\<lparr>events := events st1 @ [SuiteAfter (result st1)]\<rparr>
      in st2\<lparr>result := (result st2)\<lparr>total := success (result st2) + fail (result st2)\<rparr>\<rparr>)"

section \<open>Observations used in the statements\<close>

text \<open>The status and the error \<^verbatim>\<open>executeTest\<close> yields; \<open>None\<close> when it throws instead.\<close>

definition outcome_status :: "'e \<times> 'i \<times> (thrown + TestResult) \<Rightarrow> Status option" where
  "outcome_status out = (case snd (snd out) of Inl _ \<Rightarrow> None | Inr r \<Rightarrow> Some (status r))"

definition outcome_error :: "'e \<times> 'i \<times> (thrown + TestResult) \<Rightarrow> thrown option" where
  "outcome_error out = (case snd (snd out) of Inl _ \<Rightarrow> None | Inr r \<Rightarrow> error r)"

text \<open>The number of tests a suite result has counted.\<close>

definition counted :: "SuiteResult \<Rightarrow> nat" where
  "counted r = success r + fail r + skip r"

text \<open>
  The tests the consumer saw start and the results it saw finish, in order: the payloads
  of the \<^verbatim>\<open>test before\<close> and of the \<^verbatim>\<open>test after\<close> events.
\<close>

fun started :: "'i Event list \<Rightarrow> TestConfig list" where
  "started [] = []"
| "started (TestBefore t # evs) = t # started evs"
| "started (ev # evs) = started evs"

fun finished :: "'i Event list \<Rightarrow> TestResult list" where
  "finished [] = []"
| "finished (TestAfter r # evs) = r # finished evs"
| "finished (ev # evs) = finished evs"

text \<open>
  A suite-level failure under a given name: status \<^verbatim>\<open>fail\<close>, that method name, and a
  single assertion with operator \<^verbatim>\<open>throws\<close> and text \<^verbatim>\<open>(outer)\<close>.
\<close>

definition suite_error :: "string \<Rightarrow> TestResult \<Rightarrow> bool" where
  "suite_error description bad =
     (status bad = Fail \<and> tr_methodName bad = description \<and>
      (case assertions bad of
         Some [a] \<Rightarrow> a_operator a = ''throws'' \<and> a_text a = ''(outer)''
       | _ \<Rightarrow> False))"

text \<open>A listener loop that ended because a listener threw an error or a string, or timed out.\<close>

fun threw_or_timed_out :: "settled \<Rightarrow> bool" where
  "threw_or_timed_out (Rejected err) = True"
| "threw_or_timed_out TimedOut = True"
| "threw_or_timed_out Resolved = False"
| "threw_or_timed_out RejectedNullish = False"



text \<open>
  How a run that broke out differs from the state \<open>st\<close> it started in, when \<open>rs\<close> are the
  results of the tests it ran: they were pushed in order, followed by one suite error
  named after a phase; the tests started are the first \<open>length rs\<close> of \<open>ts\<close> followed by
  the configuration sent for the suite error; the results finished are those of \<open>rs\<close>
  that were not skipped, followed by the suite error.
\<close>

definition breakout_shape ::
  "TestConfig list \<Rightarrow> TestResult list \<Rightarrow> 'i Run \<Rightarrow> 'i Run \<Rightarrow> bool" where
  "breakout_shape ts rs st st' =
     (\<exists>bad cfg ph. suite_error (phase_name ph) bad
        \<and> tests (result st') = tests (result st) @ rs @ [bad]
        \<and> started (events st') = started (events st) @ take (length rs) ts @ [cfg]
        \<and> finished (events st') = finished (events st) @ filter (\<lambda>r. status r \<noteq> Skip) rs @ [bad])"

text \<open>
  How a run of the tests \<open>ts\<close>, ending with \<open>x\<close> thrown (or nothing), differs from the
  state it started in: some first tests of \<open>ts\<close> ran and were counted, \<^verbatim>\<open>total\<close> was not
  touched; without an exception all of them ran; with a breakout the suite error follows.
\<close>

definition loop_shape ::
  "TestConfig list \<Rightarrow> exn option \<Rightarrow> 'i Run \<Rightarrow> 'i Run \<Rightarrow> bool" where
  "loop_shape ts x st st' =
     (\<exists>rs. length rs \<le> length ts
        \<and> map tr_methodName rs = map tc_methodName (take (length rs) ts)
        \<and> counted (result st') = counted (result st) + length rs
        \<and> SuiteResult.total (result st') = SuiteResult.total (result st)
        \<and> (case x of
             None \<Rightarrow> length rs = length ts
                \<and> tests (result st') = tests (result st) @ rs
                \<and> started (events st') = started (events st) @ ts
                \<and> finished (events st') = finished (events st) @ filter (\<lambda>r. status r \<noteq> Skip) rs
           | Some BREAKOUT \<Rightarrow> breakout_shape ts rs st st'
           | Some (Uncaught err) \<Rightarrow> True))"

text \<open>
  The states the dispatch loop passes through, from the empty start: one more pass of
  the loop body at a time, as long as files remain to be dispatched.
\<close>

inductive reachable ::
  "int \<Rightarrow> (nat \<Rightarrow> nat list \<Rightarrow> nat) \<Rightarrow> (string \<Rightarrow> string + SuitesResult) \<Rightarrow> string list
     \<Rightarrow> Dispatch \<Rightarrow> bool"
  for bound first child files where
    start: "reachable bound first child files
              \<lparr>position = 0, pending = [], results = empty_results\<rparr>"
  | step: "reachable bound first child files st \<Longrightarrow> position st < length files \<Longrightarrow>
           exec_iteration bound first child files st = Continue st' \<Longrightarrow>
           reachable bound first child files st'"

text \<open>What a child contributes to the aggregate: nothing when it failed.\<close>

definition sent :: "string + SuitesResult \<Rightarrow> SuitesResult" where
  "sent answer = (case answer of Inl stderr \<Rightarrow> empty_results | Inr r \<Rightarrow> r)"

text \<open>
  The invariant of the dispatch loop for a counter \<open>c\<close>: the pending keys are distinct
  positions already dispatched, each with the answer of its file's child, and what has
  been merged plus what is pending is the sum over the files dispatched so far.
\<close>

definition dispatch_inv ::
  "(SuitesResult \<Rightarrow> nat) \<Rightarrow> (string \<Rightarrow> string + SuitesResult) \<Rightarrow> string list
     \<Rightarrow> Dispatch \<Rightarrow> bool" where
  "dispatch_inv c child files st =
     (position st \<le> length files
      \<and> distinct (map fst (pending st))
      \<and> (\<forall>p \<in> set (pending st). fst p < position st \<and> snd p = child (files ! fst p))
      \<and> c (results st) + sum_list (map (\<lambda>p. c (sent (snd p))) (pending st))
          = sum_list (map (\<lambda>f. c (sent (child f))) (take (position st) files)))"

section \<open>Sample inputs\<close>

definition a_test :: "ShouldThrow option \<Rightarrow> TestConfig" where
  "a_test st =
     \<lparr>tc_className = ''Sample'', tc_methodName = ''check'', tc_description = ''check'',
      tc_file = ''sample.ts'', tc_lines = \<lparr>line_start = 10, line_end = 12\<rparr>, tc_skip = False,
      shouldError = None, shouldThrow = st, tc_timeout = None\<rparr>"

text \<open>A class whose every method settles as given, asserting and printing nothing.\<close>

definition a_method :: "settled \<Rightarrow> string \<Rightarrow> unit \<Rightarrow> unit Invocation" where
  "a_method s m i = \<lparr>settles = s, asserted = [], printed = [], leaves = i\<rparr>"

definition at_line :: "nat \<Rightarrow> readFilePosition" where
  "at_line n err file = (file, n)"

text \<open>
  A suite of two passing tests whose instance counts the \<^verbatim>\<open>beforeEach\<close> calls; the
  listener resolves on the first call and throws on every later one.
\<close>

definition counting_suite :: "nat SuiteConfig" where
  "counting_suite =
     \<lparr>sc_className = ''Sample'', sc_file = ''sample.ts'',
      sc_lines = \<lparr>line_start = 1, line_end = 30\<rparr>,
      beforeAll = [],
      beforeEach = [\<lambda>i. (if i = 0 then Resolved else Rejected (new_Error ''no setup''), i + 1)],
      afterAll = [], afterEach = [],
      sc_tests = [a_test None, (a_test None)\<lparr>tc_methodName := ''other''\<rparr>],
      sc_methods = (\<lambda>m i. \<lparr>settles = Resolved, asserted = [], printed = [], leaves = i\<rparr>),
      sc_instance = 0\<rparr>"

text \<open>The same two tests without any listener.\<close>

definition plain_suite :: "nat SuiteConfig" where
  "plain_suite = counting_suite\<lparr>beforeEach := []\<rparr>"


text \<open>
  A suite whose first test expects an error (\<^verbatim>\<open>shouldThrow = true\<close>) and whose methods all
  return normally.
\<close>

definition expecting_suite :: "nat SuiteConfig" where
  "expecting_suite =
     plain_suite\<lparr>sc_tests := [a_test (Some (StBoolean True)),
                               (a_test None)\<lparr>tc_methodName := ''other''\<rparr>]\<rparr>"

text \<open>A suite of the executor with one test, which throws.\<close>

definition failing_suite :: "unit XSuiteConfig" where
  "failing_suite =
     \<lparr>xs_filename = ''sample.ts'', xs_name = ''Sample'', xs_description = ''sample'',
      xs_tests = [\<lparr>xt_method = ''check'', xt_description = ''check''\<rparr>],
      xs_methods = (\<lambda>m i. (Rejected (new_Error ''boom''), i)),
      xs_instance = ()\<rparr>"

section \<open>Merging results\<close>

text \<open>
  C7. For all \<^verbatim>\<open>SuitesResult\<close> values A and B, merging B into A and merging A into B give
  the same four counters (each the field-wise sum) and suite lists that are equal as
  multisets (the two concatenations), and merging is associative: merging C into the
  merge of A and B is merging the merge of B and C into A. So the aggregate of a
  multi-file run does not depend on the order in which the files' results are merged.
\<close>

theorem merge_commutative_associative:
  "passed (merge A (Suites B)) = passed A + passed B
   \<and> failed (merge A (Suites B)) = failed A + failed B
   \<and> skipped (merge A (Suites B)) = skipped A + skipped B
   \<and> Counts.total (merge A (Suites B)) = Counts.total A + Counts.total B
   \<and> passed (merge A (Suites B)) = passed (merge B (Suites A))
   \<and> failed (merge A (Suites B)) = failed (merge B (Suites A))
   \<and> skipped (merge A (Suites B)) = skipped (merge B (Suites A))
   \<and> Counts.total (merge A (Suites B)) = Counts.total (merge B (Suites A))
   \<and> suites (merge A (Suites B)) = suites A @ suites B
   \<and> mset (suites (merge A (Suites B))) = mset (suites (merge B (Suites A)))
   \<and> merge (merge A (Suites B)) (Suites C) = merge A (Suites (merge B (Suites C)))"
  by simp

section \<open>A single test: expectations, timeouts, uncaught errors\<close>

text \<open>\<open>str_includes\<close> is containment as a contiguous run.\<close>

lemma str_includes_iff: "str_includes s t \<longleftrightarrow> (\<exists>pre post. s = pre @ t @ post)"
proof (induction s)
  case Nil
  then show ?case by simp
next
  case (Cons c cs)
  note IH = Cons.IH
  show ?case
  proof
    assume "str_includes (c # cs) t"
    then consider "take (length t) (c # cs) = t" | "str_includes cs t" by auto
    then show "\<exists>pre post. c # cs = pre @ t @ post"
    proof cases
      case 1
      then have "c # cs = [] @ t @ drop (length t) (c # cs)"
        by (metis append_Nil append_take_drop_id)
      then show ?thesis by blast
    next
      case 2
      with IH obtain pre post where "cs = pre @ t @ post" by blast
      then have "c # cs = (c # pre) @ t @ post" by simp
      then show ?thesis by blast
    qed
  next
    assume "\<exists>pre post. c # cs = pre @ t @ post"
    then obtain pre post where eq: "c # cs = pre @ t @ post" by blast
    show "str_includes (c # cs) t"
    proof (cases pre)
      case Nil
      with eq have "take (length t) (c # cs) = t" by simp
      then show ?thesis by simp
    next
      case (Cons p pre')
      with eq have "cs = pre' @ t @ post" by simp
      with IH have "str_includes cs t" by blast
      then show ?thesis by simp
    qed
  qed
qed

text \<open>
  C3. For a test that is not skipped and has \<^verbatim>\<open>shouldThrow = true\<close>: when the method throws
  an error (any truthy value), \<^verbatim>\<open>executeTest\<close> yields status \<^verbatim>\<open>success\<close>. When the method
  returns normally, the claim asks for status \<^verbatim>\<open>fail\<close> with the error
  \<^verbatim>\<open>Expected an error to be thrown\<close>; the code builds that error but the boolean branch of
  \<^verbatim>\<open>checkError\<close> throws it, so \<^verbatim>\<open>executeTest\<close> itself throws it and yields no result.
\<close>

theorem shouldThrow_true_outcomes:
  assumes "\<not> tc_skip test" and "shouldThrow test = Some (StBoolean True)"
  shows "(settles (methods (tc_methodName test) i) = Resolved \<longrightarrow>
            snd (snd (executeTest rfp methods i test))
              = Inl (new_Error ''Expected an error to be thrown'')
          \<and> outcome_status (executeTest rfp methods i test) = None)
       \<and> (\<forall>err. settles (methods (tc_methodName test) i) = Rejected err \<and> truthy (Some err) \<longrightarrow>
            outcome_status (executeTest rfp methods i test) = Some Success)"
  using assms
  by (auto simp: executeTest_def checkError_def outcome_status_def Let_def)

theorem shouldThrow_true_outcomes_witness:
  "snd (snd (executeTest (at_line 7) (a_method Resolved) () (a_test (Some (StBoolean True)))))
     = Inl (new_Error ''Expected an error to be thrown'')
   \<and> outcome_status (executeTest (at_line 7) (a_method Resolved) ()
        (a_test (Some (StBoolean True)))) = None
   \<and> outcome_status (executeTest (at_line 7) (a_method (Rejected (new_Error ''boom''))) ()
        (a_test (Some (StBoolean True)))) = Some Success"
  using shouldThrow_true_outcomes[of "a_test (Some (StBoolean True))" "a_method Resolved" "()"
          "at_line 7"]
        shouldThrow_true_outcomes[of "a_test (Some (StBoolean True))"
          "a_method (Rejected (new_Error ''boom''))" "()" "at_line 7"]
  by (simp add: a_test_def a_method_def new_Error_def)

text \<open>
  C4, as stated, fails: a test with \<^verbatim>\<open>shouldThrow = true\<close> is satisfied by any error, the
  timeout error included (\<^verbatim>\<open>checkError\<close> returns \<^verbatim>\<open>undefined\<close> for it), yet when the test
  loses the race its status is \<^verbatim>\<open>fail\<close>.
\<close>

theorem timeout_validated_counterexample:
  "checkError (a_test (Some (StBoolean True))) (Some (new_Error ''Operation timed out''))
     = Inr None
   \<and> outcome_status (executeTest (at_line 7) (a_method TimedOut) ()
        (a_test (Some (StBoolean True)))) = Some Fail"
  by (simp add: executeTest_def checkError_def outcome_status_def Let_def a_test_def
      a_method_def new_Error_def AssertUtil_add_def)

text \<open>
  C4, amended. For every test that is not skipped and loses the race against its timeout,
  \<^verbatim>\<open>executeTest\<close> makes the error \<^verbatim>\<open>Operation timed out\<close> and, without passing it through the
  \<^verbatim>\<open>shouldThrow\<close> validation, yields status \<^verbatim>\<open>fail\<close> with that error, whatever the test's
  \<^verbatim>\<open>shouldThrow\<close> is.
\<close>

theorem timeout_always_fails:
  assumes "\<not> tc_skip test" and "settles (methods (tc_methodName test) i) = TimedOut"
  shows "outcome_status (executeTest rfp methods i test) = Some Fail
       \<and> outcome_error (executeTest rfp methods i test)
           = Some (new_Error ''Operation timed out'')"
  using assms
  by (auto simp: executeTest_def outcome_status_def outcome_error_def Let_def new_Error_def
      AssertUtil_add_def)

theorem timeout_always_fails_witness:
  "outcome_status (executeTest (at_line 7) (a_method TimedOut) ()
        (a_test (Some (StString ''timed'')))) = Some Fail
   \<and> outcome_error (executeTest (at_line 7) (a_method TimedOut) ()
        (a_test (Some (StString ''timed'')))) = Some (new_Error ''Operation timed out'')"
  using timeout_always_fails[of "a_test (Some (StString ''timed''))" "a_method TimedOut" "()"
          "at_line 7"]
  by (simp add: a_test_def a_method_def)

text \<open>The earlier revision treats a timeout the same way.\<close>

lemma timeout_fails_rev1:
  assumes "\<not> tc_skip test" and "settles (methods (tc_methodName test) i) = TimedOut"
  shows "outcome_status (executeTest_rev1 rfp methods i test) = Some Fail
       \<and> outcome_error (executeTest_rev1 rfp methods i test)
           = Some (new_Error ''Operation timed out'')"
  using assms
  by (auto simp: executeTest_rev1_def outcome_status_def outcome_error_def Let_def new_Error_def
      split: prod.splits)

text \<open>
  C8, as stated, fails for the empty substring: every message contains it, so the claim
  promises \<^verbatim>\<open>success\<close>, but an empty \<^verbatim>\<open>shouldThrow\<close> is falsy, \<^verbatim>\<open>checkError\<close> is not called
  and the thrown error fails the test.
\<close>

theorem empty_substring_counterexample:
  "str_includes ''boom'' ''''
   \<and> outcome_status (executeTest (at_line 7) (a_method (Rejected (new_Error ''boom''))) ()
        (a_test (Some (StString '''')))) = Some Fail"
  by (simp add: executeTest_def outcome_status_def Let_def a_test_def a_method_def new_Error_def
      AssertUtil_add_def)

text \<open>
  C8, amended. For every test that is not skipped, whose \<^verbatim>\<open>shouldThrow\<close> is a non-empty
  string and whose method throws an error (any truthy value; its message is the text of
  the value): if the message contains the string the test yields \<^verbatim>\<open>success\<close>; otherwise
  it yields \<^verbatim>\<open>fail\<close> with the error
  \<^verbatim>\<open>Expected error containing text '<expected>', but got '<message>'\<close>.
\<close>

theorem substring_expectation:
  assumes "\<not> tc_skip test" and "shouldThrow test = Some (StString st)" and "st \<noteq> []"
    and "settles (methods (tc_methodName test) i) = Rejected err" and "truthy (Some err)"
  shows "if str_includes (text_of err) st
         then outcome_status (executeTest rfp methods i test) = Some Success
         else outcome_status (executeTest rfp methods i test) = Some Fail
            \<and> outcome_error (executeTest rfp methods i test)
                = Some (new_Error (''Expected error containing text '' @ quoted st
                                   @ '', but got '' @ quoted (text_of err)))"
proof -
  have "actual (Some err) = quoted (text_of err)"
    using assms(5) by (cases err) auto
  with assms show ?thesis
    by (auto simp: executeTest_def checkError_def outcome_status_def outcome_error_def Let_def
        new_Error_def)
qed

theorem substring_expectation_witness:
  "outcome_status (executeTest (at_line 7) (a_method (Rejected (new_Error ''boom''))) ()
        (a_test (Some (StString ''oo'')))) = Some Success
   \<and> outcome_status (executeTest (at_line 7) (a_method (Rejected (new_Error ''boom''))) ()
        (a_test (Some (StString ''bang'')))) = Some Fail
   \<and> outcome_error (executeTest (at_line 7) (a_method (Rejected (new_Error ''boom''))) ()
        (a_test (Some (StString ''bang''))))
       = Some (new_Error (''Expected error containing text '' @ quoted ''bang''
                          @ '', but got '' @ quoted ''boom''))"
  using substring_expectation[of "a_test (Some (StString ''oo''))" "''oo''"
          "a_method (Rejected (new_Error ''boom''))" "()" "new_Error ''boom''" "at_line 7"]
        substring_expectation[of "a_test (Some (StString ''bang''))" "''bang''"
          "a_method (Rejected (new_Error ''boom''))" "()" "new_Error ''boom''" "at_line 7"]
  by (simp add: a_test_def a_method_def new_Error_def)

text \<open>
  C9. Whenever \<^verbatim>\<open>executeTest\<close> returns a result with status \<^verbatim>\<open>fail\<close> whose error is not an
  \<^verbatim>\<open>AssertionError\<close>, the result's assertions are those the test made followed by exactly
  one more, with operator \<^verbatim>\<open>throws\<close> and text \<^verbatim>\<open>(uncaught)\<close>; its line is the line of the
  error's position, except that when that line is 1 it is the test's first line.
\<close>

theorem uncaught_assertion:
  assumes "snd (snd (executeTest rfp methods i test)) = Inr r"
    and "status r = Fail" and "error r = Some err" and "\<not> instanceof err ''AssertionError''"
  shows "\<exists>a. assertions r = Some (asserted (methods (tc_methodName test) i) @ [a])
           \<and> a_operator a = ''throws'' \<and> a_text a = ''(uncaught)''
           \<and> a_line a = (if snd (rfp err (tc_file test)) = 1 then line_start (tc_lines test)
                         else snd (rfp err (tc_file test)))"
  using assms
  by (auto simp: executeTest_def Let_def AssertUtil_add_def uncaught_def
      split: if_splits sum.splits option.splits settled.splits)

theorem uncaught_assertion_witness:
  "\<exists>r a. snd (snd (executeTest (at_line 1) (a_method (Rejected (new_Error ''boom''))) ()
                     (a_test None))) = Inr r
      \<and> status r = Fail \<and> error r = Some (new_Error ''boom'')
      \<and> assertions r = Some [a] \<and> a_operator a = ''throws'' \<and> a_text a = ''(uncaught)''
      \<and> a_line a = 10"
proof -
  let ?out = "executeTest (at_line 1) (a_method (Rejected (new_Error ''boom''))) () (a_test None)"
  obtain r where r: "snd (snd ?out) = Inr r" "status r = Fail" "error r = Some (new_Error ''boom'')"
    by (simp add: executeTest_def Let_def a_test_def a_method_def new_Error_def)
  have n: "\<not> instanceof (new_Error ''boom'') ''AssertionError''"
    by (simp add: new_Error_def)
  from uncaught_assertion[OF r n] obtain a where
    "assertions r = Some (asserted (a_method (Rejected (new_Error ''boom''))
                                      (tc_methodName (a_test None)) ()) @ [a])"
    "a_operator a = ''throws''" "a_text a = ''(uncaught)''"
    "a_line a = (if snd (at_line 1 (new_Error ''boom'') (tc_file (a_test None))) = 1
                 then line_start (tc_lines (a_test None))
                 else snd (at_line 1 (new_Error ''boom'') (tc_file (a_test None))))"
    by blast
  then have "assertions r = Some [a]" "a_operator a = ''throws''" "a_text a = ''(uncaught)''"
    "a_line a = 10"
    by (simp_all add: a_method_def a_test_def at_line_def)
  with r show ?thesis by auto
qed

section \<open>A suite run: counts, events, listener failures\<close>

lemma started_append: "started (xs @ ys) = started xs @ started ys"
  by (induction xs rule: started.induct) auto

lemma finished_append: "finished (xs @ ys) = finished xs @ finished ys"
  by (induction xs rule: finished.induct) auto

lemma started_assertions: "started (map AssertionAfter as) = []"
  by (induction as) auto

lemma finished_assertions: "finished (map AssertionAfter as) = []"
  by (induction as) auto

lemma record_test_counts:
  "counted (record_test ret r) = counted r + 1"
  "SuiteResult.total (record_test ret r) = SuiteResult.total r"
  by (auto simp: record_test_def counted_def Let_def split: Status.splits)

lemma record_test_tests: "tests (record_test ret r) = tests r @ [ret]"
  by (auto simp: record_test_def Let_def split: Status.splits)

lemma generateSuiteError_shape:
  "generateSuiteError rfp suite d err = (evs, bad) \<Longrightarrow>
     suite_error d bad \<and> finished evs = [bad] \<and> length (started evs) = 1"
  by (auto simp: generateSuiteError_def suite_error_def Let_def split: prod.splits)

lemma executeTest_rev1_events:
  "executeTest_rev1 rfp methods i t = (evs, i', out) \<Longrightarrow>
     started evs = [t] \<and>
     (case out of
        Inl err \<Rightarrow> finished evs = []
      | Inr ret \<Rightarrow> finished evs = filter (\<lambda>r. status r \<noteq> Skip) [ret]
                  \<and> tr_methodName ret = tc_methodName t)"
  by (auto simp: executeTest_rev1_def Let_def started_append finished_append
        started_assertions finished_assertions
      split: if_splits sum.splits option.splits prod.splits)

text \<open>
  \<^verbatim>\<open>affixProcess\<close> throws \<^verbatim>\<open>BREAKOUT\<close> exactly when a listener of the phase throws an error or
  a string, or times out; it records how the phase's listeners ended.
\<close>

lemma affixProcess_breakout:
  "fst (affixProcess rfp ph suite st)
     = (case fst (run_listeners (listeners ph suite) (inst st)) of
          Resolved \<Rightarrow> None
        | RejectedNullish \<Rightarrow> Some (Uncaught (TypeError_reading ''message''))
        | _ \<Rightarrow> Some BREAKOUT)"
  by (auto simp: affixProcess_def Let_def split: prod.splits settled.splits)

lemma affixProcess_phases:
  "phases (snd (affixProcess rfp ph suite st))
     = phases st @ [(ph, fst (run_listeners (listeners ph suite) (inst st)))]"
  by (auto simp: affixProcess_def Let_def split: prod.splits settled.splits)

text \<open>A listener loop that does not resolve ends with what one of its listeners did.\<close>

lemma run_listeners_failure:
  "fst (run_listeners fns i) \<noteq> Resolved \<Longrightarrow>
     \<exists>fn \<in> set fns. \<exists>j. fst (fn j) = fst (run_listeners fns i)"
proof (induction fns arbitrary: i)
  case Nil
  then show ?case by simp
next
  case (Cons fn fns)
  obtain s i' where f: "fn i = (s, i')" by (cases "fn i")
  show ?case
  proof (cases s)
    case Resolved
    with f Cons.prems have "fst (run_listeners fns i') \<noteq> Resolved"
      "fst (run_listeners (fn # fns) i) = fst (run_listeners fns i')" by auto
    with Cons.IH[of i'] show ?thesis by auto
  next
    case (Rejected err)
    with f have "fst (fn i) = fst (run_listeners (fn # fns) i)" by simp
    then show ?thesis by auto
  next
    case RejectedNullish
    with f have "fst (fn i) = fst (run_listeners (fn # fns) i)" by simp
    then show ?thesis by auto
  next
    case TimedOut
    with f have "fst (fn i) = fst (run_listeners (fn # fns) i)" by simp
    then show ?thesis by auto
  qed
qed

lemma affixProcess_counts:
  "affixProcess rfp ph suite st = (x, st') \<Longrightarrow>
     counted (result st') = counted (result st)
     \<and> SuiteResult.total (result st') = SuiteResult.total (result st)"
  by (auto simp: affixProcess_def counted_def Let_def split: prod.splits settled.splits)

lemma affixProcess_broke:
  assumes "run_listeners (listeners ph suite) (inst st) = (s, i')"
    and "threw_or_timed_out s"
  shows "\<exists>evs bad. affixProcess rfp ph suite st
           = (Some BREAKOUT,
              st\<lparr>inst := i', events := events st @ evs,
                 result := (result st)\<lparr>tests := tests (result st) @ [bad]\<rparr>,
                 phases := phases st @ [(ph, s)]\<rparr>)
         \<and> suite_error (phase_name ph) bad \<and> finished evs = [bad]
         \<and> length (started evs) = 1"
proof -
  define err where "err = (case s of Rejected e \<Rightarrow> e
                   | _ \<Rightarrow> new_Error (sc_className suite @ '': '' @ phase_name ph @ '' timed out''))"
  obtain evs bad where g: "generateSuiteError rfp suite (phase_name ph) err = (evs, bad)"
    by (cases "generateSuiteError rfp suite (phase_name ph) err")
  from assms g have "affixProcess rfp ph suite st
           = (Some BREAKOUT,
              st\<lparr>inst := i', events := events st @ evs,
                 result := (result st)\<lparr>tests := tests (result st) @ [bad]\<rparr>,
                 phases := phases st @ [(ph, s)]\<rparr>)"
    by (cases s) (auto simp: affixProcess_def Let_def err_def)
  with generateSuiteError_shape[OF g] show ?thesis by blast
qed

lemma affixProcess_shape:
  assumes "affixProcess rfp ph suite st = (x, st')"
  shows "case x of
           None \<Rightarrow> events st' = events st \<and> result st' = result st
         | Some BREAKOUT \<Rightarrow>
             (\<exists>bad cfg. suite_error (phase_name ph) bad
                \<and> tests (result st') = tests (result st) @ [bad]
                \<and> started (events st') = started (events st) @ [cfg]
                \<and> finished (events st') = finished (events st) @ [bad])
         | Some (Uncaught err) \<Rightarrow> events st' = events st \<and> result st' = result st"
proof (cases "run_listeners (listeners ph suite) (inst st)")
  case (Pair s i')
  show ?thesis
  proof (cases "threw_or_timed_out s")
    case False
    with assms Pair show ?thesis by (cases s) (auto simp: affixProcess_def)
  next
    case True
    from affixProcess_broke[OF Pair True, of rfp] assms obtain evs bad where
      x: "x = Some BREAKOUT"
      and st': "st' = st\<lparr>inst := i', events := events st @ evs,
                   result := (result st)\<lparr>tests := tests (result st) @ [bad]\<rparr>,
                   phases := phases st @ [(ph, s)]\<rparr>"
      and bad: "suite_error (phase_name ph) bad" "finished evs = [bad]"
        "length (started evs) = 1"
      by auto
    from bad(3) obtain cfg where "started evs = [cfg]"
      by (cases "started evs") auto
    with bad x st' show ?thesis
      by (auto simp: started_append finished_append)
  qed
qed


lemma affixProcess_breaks:
  assumes "affixProcess rfp ph suite st = (Some BREAKOUT, st')"
  shows "\<exists>bad cfg ph. suite_error (phase_name ph) bad
                \<and> tests (result st') = tests (result st) @ [bad]
                \<and> started (events st') = started (events st) @ [cfg]
                \<and> finished (events st') = finished (events st) @ [bad]"
  using affixProcess_shape[OF assms] by (simp only: option.case exn.case) blast

lemma breakout_after:
  assumes "affixProcess rfp ph suite st2 = (Some BREAKOUT, st3)"
    and "tests (result st2) = tests (result st) @ rs"
    and "started (events st2) = started (events st) @ take (length rs) ts"
    and "finished (events st2) = finished (events st) @ filter (\<lambda>r. status r \<noteq> Skip) rs"
  shows "breakout_shape ts rs st st3"
  using affixProcess_breaks[OF assms(1)] assms(2-4)
  unfolding breakout_shape_def by auto

text \<open>A phase that ends with an error of its own leaves events and result as they were.\<close>

lemma uncaught_after:
  assumes "affixProcess rfp ph suite st2 = (Some (Uncaught err), st3)"
  shows "events st3 = events st2 \<and> result st3 = result st2"
  using affixProcess_shape[OF assms] by simp

lemma loop_shape_holds:
  "executeSuite_rev1_loop rfp suite ts st = (x, st') \<Longrightarrow> loop_shape ts x st st'"
proof (induction ts arbitrary: st x st')
  case Nil
  then show ?case by (auto simp: loop_shape_def)
next
  case (Cons t ts)
  obtain x1 st1 where a1: "affixProcess rfp BeforeEach suite st = (x1, st1)"
    by (cases "affixProcess rfp BeforeEach suite st")
  note c1 = affixProcess_counts[OF a1]
  note s1 = affixProcess_shape[OF a1]
  show ?case
  proof (cases x1)
    case (Some e)
    with Cons.prems a1 have xs: "x = Some e" "st' = st1" by auto
    have "e = BREAKOUT \<longrightarrow> breakout_shape (t # ts) [] st st1"
      using a1 Some breakout_after[where ?st2.0 = st and st = st and rs = "[]"] by auto
    with xs c1 show ?thesis
      unfolding loop_shape_def
      by (intro exI[of _ "[]"]) (auto split: exn.splits)
  next
    case None
    with s1 have same1: "events st1 = events st" "result st1 = result st" by auto
    obtain evs i2 out where
      t1: "executeTest_rev1 rfp (sc_methods suite) (inst st1) t = (evs, i2, out)"
      by (cases "executeTest_rev1 rfp (sc_methods suite) (inst st1) t")
    note e1 = executeTest_rev1_events[OF t1]
    show ?thesis
    proof (cases out)
      case (Inl err)
      with Cons.prems a1 None t1 have "x = Some (Uncaught err)"
        "st' = st1\<lparr>events := events st1 @ evs, inst := i2\<rparr>" by auto
      with same1 show ?thesis
        unfolding loop_shape_def by (intro exI[of _ "[]"]) auto
    next
      case (Inr ret)
      let ?st2 = "st1\<lparr>events := events st1 @ evs, inst := i2,
                       result := record_test ret (result st1)\<rparr>"
      from e1 Inr same1 have st2:
        "tests (result ?st2) = tests (result st) @ [ret]"
        "started (events ?st2) = started (events st) @ [t]"
        "finished (events ?st2) = finished (events st) @ filter (\<lambda>r. status r \<noteq> Skip) [ret]"
        "counted (result ?st2) = counted (result st) + 1"
        "tr_methodName ret = tc_methodName t"
        "SuiteResult.total (result ?st2) = SuiteResult.total (result st)"
        by (auto simp: record_test_tests record_test_counts started_append finished_append)
      obtain x3 st3 where a3: "affixProcess rfp AfterEach suite ?st2 = (x3, st3)"
        by (cases "affixProcess rfp AfterEach suite ?st2")
      note c3 = affixProcess_counts[OF a3]
      note s3 = affixProcess_shape[OF a3]
      show ?thesis
      proof (cases x3)
        case (Some e)
        with Cons.prems a1 None t1 Inr a3 have xs: "x = Some e" "st' = st3" by auto
        have "e = BREAKOUT \<longrightarrow> breakout_shape (t # ts) [ret] st st3"
          using a3 Some st2 breakout_after[where ?st2.0 = "?st2" and st = st and rs = "[ret]"]
          by auto
        with xs c3 st2 show ?thesis
          unfolding loop_shape_def
          by (intro exI[of _ "[ret]"]) (auto split: exn.splits)
      next
        case N3: None
        with s3 have same3: "events st3 = events ?st2" "result st3 = result ?st2" by auto
        from N3 Cons.prems a1 None t1 Inr a3
        have "executeSuite_rev1_loop rfp suite ts st3 = (x, st')" by simp
        from Cons.IH[OF this] obtain rs where rs:
          "length rs \<le> length ts"
          "map tr_methodName rs = map tc_methodName (take (length rs) ts)"
          "counted (result st') = counted (result st3) + length rs"
          "SuiteResult.total (result st') = SuiteResult.total (result st3)"
          "case x of
             None \<Rightarrow> length rs = length ts
                \<and> tests (result st') = tests (result st3) @ rs
                \<and> started (events st') = started (events st3) @ ts
                \<and> finished (events st')
                    = finished (events st3) @ filter (\<lambda>r. status r \<noteq> Skip) rs
           | Some BREAKOUT \<Rightarrow> breakout_shape ts rs st3 st'
           | Some (Uncaught err) \<Rightarrow> True"
          unfolding loop_shape_def by blast
        show ?thesis
          unfolding loop_shape_def
        proof (intro exI[of _ "ret # rs"] conjI)
          show "length (ret # rs) \<le> length (t # ts)" using rs(1) by simp
          show "map tr_methodName (ret # rs)
                  = map tc_methodName (take (length (ret # rs)) (t # ts))"
            using rs(2) st2(5) by simp
          show "counted (result st') = counted (result st) + length (ret # rs)"
            using rs(3) same3 st2(4) by simp
          show "SuiteResult.total (result st') = SuiteResult.total (result st)"
            using rs(4) same3 st2(6) by simp
          show "case x of
             None \<Rightarrow> length (ret # rs) = length (t # ts)
                \<and> tests (result st') = tests (result st) @ (ret # rs)
                \<and> started (events st') = started (events st) @ (t # ts)
                \<and> finished (events st')
                    = finished (events st) @ filter (\<lambda>r. status r \<noteq> Skip) (ret # rs)
           | Some BREAKOUT \<Rightarrow> breakout_shape (t # ts) (ret # rs) st st'
           | Some (Uncaught err) \<Rightarrow> True"
          proof (cases x)
            case None
            with rs(5) same3 st2 show ?thesis by auto
          next
            case (Some e)
            show ?thesis
            proof (cases e)
              case BREAKOUT
              with Some rs(5) have "breakout_shape ts rs st3 st'" by simp
              then have "breakout_shape (t # ts) (ret # rs) st st'"
                unfolding breakout_shape_def using same3 st2 by auto
              with Some BREAKOUT show ?thesis by simp
            next
              case (Uncaught err)
              with Some show ?thesis by simp
            qed
          qed
        qed
      qed
    qed
  qed
qed

text \<open>The same for the whole \<^verbatim>\<open>try\<close> block, over the suite's own tests.\<close>

lemma try_shape:
  assumes "executeSuite_rev1_try rfp suite st = (x, st')"
  shows "\<exists>rs. length rs \<le> length (sc_tests suite)
        \<and> counted (result st') = counted (result st) + length rs
        \<and> SuiteResult.total (result st') = SuiteResult.total (result st)
        \<and> (x = None \<longrightarrow> length rs = length (sc_tests suite))
        \<and> (x = Some BREAKOUT \<longrightarrow>
             map tr_methodName rs = map tc_methodName (take (length rs) (sc_tests suite))
             \<and> breakout_shape (sc_tests suite) rs st st')"
proof -
  obtain x1 st1 where a1: "affixProcess rfp BeforeAll suite st = (x1, st1)"
    by (cases "affixProcess rfp BeforeAll suite st")
  note c1 = affixProcess_counts[OF a1]
  show ?thesis
  proof (cases x1)
    case (Some e)
    with assms a1 have st': "st' = st1" and x: "x = Some e"
      by (auto simp: executeSuite_rev1_try_def)
    have "e = BREAKOUT \<longrightarrow> breakout_shape (sc_tests suite) [] st st1"
      using a1 Some breakout_after[where ?st2.0 = st and rs = "[]" and st = st] by auto
    with st' x c1 show ?thesis by (intro exI[of _ "[]"]) auto
  next
    case None
    with affixProcess_shape[OF a1]
    have same1: "events st1 = events st" "result st1 = result st" by auto
    obtain x2 st2 where l: "executeSuite_rev1_loop rfp suite (sc_tests suite) st1 = (x2, st2)"
      by (cases "executeSuite_rev1_loop rfp suite (sc_tests suite) st1")
    from loop_shape_holds[OF l] obtain rs where rs:
      "length rs \<le> length (sc_tests suite)"
      "map tr_methodName rs = map tc_methodName (take (length rs) (sc_tests suite))"
      "counted (result st2) = counted (result st1) + length rs"
      "SuiteResult.total (result st2) = SuiteResult.total (result st1)"
      "case x2 of
         None \<Rightarrow> length rs = length (sc_tests suite)
            \<and> tests (result st2) = tests (result st1) @ rs
            \<and> started (events st2) = started (events st1) @ sc_tests suite
            \<and> finished (events st2)
                = finished (events st1) @ filter (\<lambda>r. status r \<noteq> Skip) rs
       | Some BREAKOUT \<Rightarrow> breakout_shape (sc_tests suite) rs st1 st2
       | Some (Uncaught err) \<Rightarrow> True"
      unfolding loop_shape_def by blast
    show ?thesis
    proof (cases x2)
      case (Some e)
      with assms a1 None l have "st' = st2" "x = Some e"
        by (auto simp: executeSuite_rev1_try_def)
      with rs Some same1 show ?thesis
        by (intro exI[of _ rs]) (auto simp: breakout_shape_def)
    next
      case N2: None
      with assms a1 None l have a3: "affixProcess rfp AfterAll suite st2 = (x, st')"
        by (simp add: executeSuite_rev1_try_def)
      from N2 rs(5) same1 have pre:
        "tests (result st2) = tests (result st) @ rs"
        "started (events st2) = started (events st) @ take (length rs) (sc_tests suite)"
        "finished (events st2) = finished (events st) @ filter (\<lambda>r. status r \<noteq> Skip) rs"
        "length rs = length (sc_tests suite)"
        by auto
      have "x = Some BREAKOUT \<longrightarrow> breakout_shape (sc_tests suite) rs st st'"
        using breakout_after[OF _ pre(1,2,3)] a3 by auto
      with affixProcess_counts[OF a3] rs same1 pre(4) show ?thesis
        by (intro exI[of _ rs]) auto
    qed
  qed
qed










lemma catch_counts:
  "counted (result (executeSuite_rev1_catch rfp suite (x, st))) = counted (result st)
   \<and> SuiteResult.total (result (executeSuite_rev1_catch rfp suite (x, st)))
       = SuiteResult.total (result st)"
  by (auto simp: executeSuite_rev1_catch_def counted_def
      split: option.splits exn.splits prod.splits)

lemma initial_run_empty:
  "tests (result (initial_run suite)) = []"
  "started (events (initial_run suite)) = []"
  "finished (events (initial_run suite)) = []"
  "counted (result (initial_run suite)) = 0"
  "SuiteResult.total (result (initial_run suite)) = 0"
  by (simp_all add: initial_run_def initial_result_def counted_def)

text \<open>
  The breakout reaches the \<^verbatim>\<open>catch\<close> of \<^verbatim>\<open>executeSuite\<close> as soon as a listener fails; for
  instance when a \<^verbatim>\<open>beforeAll\<close> listener throws an error or times out.
\<close>

lemma beforeAll_failure_breaks:
  assumes "threw_or_timed_out (fst (run_listeners (beforeAll suite) (sc_instance suite)))"
  shows "fst (executeSuite_rev1_try rfp suite (initial_run suite)) = Some BREAKOUT"
proof -
  have "fst (affixProcess rfp BeforeAll suite (initial_run suite)) = Some BREAKOUT"
    using assms
    by (cases "fst (run_listeners (beforeAll suite) (sc_instance suite))")
       (simp_all add: affixProcess_breakout initial_run_def)
  then show ?thesis
    by (auto simp: executeSuite_rev1_try_def split: prod.splits option.splits)
qed

text \<open>What the sample suites do.\<close>

lemma counting_suite_breaks:
  "fst (executeSuite_rev1_try (at_line 7) counting_suite (initial_run counting_suite))
     = Some BREAKOUT"
  by (simp add: executeSuite_rev1_try_def affixProcess_def counting_suite_def initial_run_def
      initial_result_def executeTest_rev1_def a_test_def Let_def generateSuiteError_def
      at_line_def record_test_def new_Error_def)


lemma plain_suite_completes:
  "fst (executeSuite_rev1_try (at_line 7) plain_suite (initial_run plain_suite)) = None"
  by (simp add: executeSuite_rev1_try_def affixProcess_def plain_suite_def counting_suite_def
      initial_run_def initial_result_def executeTest_rev1_def a_test_def Let_def
      record_test_def)

text \<open>
  C1, as stated, fails: in the counting suite the second \<^verbatim>\<open>beforeEach\<close> throws, the run
  breaks out after one test, and the returned result has counted one test of the two
  the suite declares.
\<close>

theorem executeSuite_counts_counterexample:
  "success (result (executeSuite_rev1 (at_line 7) counting_suite))
     + fail (result (executeSuite_rev1 (at_line 7) counting_suite))
     + skip (result (executeSuite_rev1 (at_line 7) counting_suite)) = 1
   \<and> length (sc_tests counting_suite) = 2"
  by (simp add: executeSuite_rev1_def executeSuite_rev1_catch_def executeSuite_rev1_try_def
      affixProcess_def counting_suite_def initial_run_def initial_result_def
      executeTest_rev1_def a_test_def Let_def generateSuiteError_def at_line_def
      record_test_def new_Error_def)

text \<open>
  C1, amended. For every suite run, the result \<^verbatim>\<open>executeSuite\<close> returns satisfies
  \<^verbatim>\<open>total = success + fail\<close> (skip excluded), and \<^verbatim>\<open>success + fail + skip\<close> never exceeds the
  number of tests the suite declares; it equals that number when the run is not aborted,
  that is when no exception (the breakout of a failed listener or any other) reaches the
  \<^verbatim>\<open>catch\<close> of \<^verbatim>\<open>executeSuite\<close>.
\<close>

theorem executeSuite_counts:
  "SuiteResult.total (result (executeSuite_rev1 rfp suite))
     = success (result (executeSuite_rev1 rfp suite)) + fail (result (executeSuite_rev1 rfp suite))
   \<and> success (result (executeSuite_rev1 rfp suite)) + fail (result (executeSuite_rev1 rfp suite))
       + skip (result (executeSuite_rev1 rfp suite)) \<le> length (sc_tests suite)
   \<and> (fst (executeSuite_rev1_try rfp suite (initial_run suite)) = None \<longrightarrow>
        success (result (executeSuite_rev1 rfp suite))
          + fail (result (executeSuite_rev1 rfp suite))
          + skip (result (executeSuite_rev1 rfp suite)) = length (sc_tests suite))"
proof -
  let ?r = "result (executeSuite_rev1 rfp suite)"
  obtain x st where t: "executeSuite_rev1_try rfp suite (initial_run suite) = (x, st)"
    by (cases "executeSuite_rev1_try rfp suite (initial_run suite)")
  from try_shape[OF t] obtain rs :: "TestResult list" where rs:
    "length rs \<le> length (sc_tests suite)"
    "counted (result st) = counted (result (initial_run suite)) + length rs"
    "x = None \<longrightarrow> length rs = length (sc_tests suite)"
    by blast
  have out: "?r = (result (executeSuite_rev1_catch rfp suite (x, st)))
      \<lparr>SuiteResult.total := success (result (executeSuite_rev1_catch rfp suite (x, st)))
                             + fail (result (executeSuite_rev1_catch rfp suite (x, st)))\<rparr>"
    using t by (simp add: executeSuite_rev1_def Let_def)
  have "counted ?r = counted (result (executeSuite_rev1_catch rfp suite (x, st)))"
    by (simp add: out counted_def)
  with catch_counts[of rfp suite x st] rs(2)
  have k: "counted ?r = length rs"
    by (simp add: initial_run_empty)
  have tot: "SuiteResult.total ?r = success ?r + fail ?r"
    by (simp add: out)
  have x: "fst (executeSuite_rev1_try rfp suite (initial_run suite)) = x"
    using t by simp
  from k rs(1) rs(3) tot x show ?thesis
    by (simp add: counted_def)
qed

theorem executeSuite_counts_witness:
  "fst (executeSuite_rev1_try (at_line 7) plain_suite (initial_run plain_suite)) = None
   \<and> success (result (executeSuite_rev1 (at_line 7) plain_suite))
       + fail (result (executeSuite_rev1 (at_line 7) plain_suite))
       + skip (result (executeSuite_rev1 (at_line 7) plain_suite)) = 2
   \<and> SuiteResult.total (result (executeSuite_rev1 (at_line 7) plain_suite))
       = success (result (executeSuite_rev1 (at_line 7) plain_suite))
         + fail (result (executeSuite_rev1 (at_line 7) plain_suite))"
proof -
  have "length (sc_tests plain_suite) = 2"
    by (simp add: plain_suite_def counting_suite_def)
  with executeSuite_counts[of "at_line 7" plain_suite] plain_suite_completes
  show ?thesis by simp
qed

text \<open>
  C10. \<^verbatim>\<open>executeSuite\<close> sends the suite's \<^verbatim>\<open>after\<close> event before it assigns \<^verbatim>\<open>total\<close>: the
  last event sent carries the returned result with \<^verbatim>\<open>total\<close> still at its initial 0, while
  the returned result has \<^verbatim>\<open>total = success + fail\<close>.
\<close>

theorem after_event_before_total:
  "last (events (executeSuite_rev1 rfp suite))
     = SuiteAfter ((result (executeSuite_rev1 rfp suite))\<lparr>SuiteResult.total := 0\<rparr>)
   \<and> SuiteResult.total (result (executeSuite_rev1 rfp suite))
       = success (result (executeSuite_rev1 rfp suite))
         + fail (result (executeSuite_rev1 rfp suite))"
proof -
  obtain x st where t: "executeSuite_rev1_try rfp suite (initial_run suite) = (x, st)"
    by (cases "executeSuite_rev1_try rfp suite (initial_run suite)")
  from try_shape[OF t] catch_counts[of rfp suite x st]
  have "SuiteResult.total (result (executeSuite_rev1_catch rfp suite (x, st))) = 0"
    by (auto simp: initial_run_empty)
  then have "(result (executeSuite_rev1_catch rfp suite (x, st)))\<lparr>SuiteResult.total := 0\<rparr>
     = result (executeSuite_rev1_catch rfp suite (x, st))"
    by (metis SuiteResult.surjective SuiteResult.update_convs(4) SuiteResult.select_convs(4))
  with t show ?thesis
    by (simp add: executeSuite_rev1_def Let_def)
qed

theorem after_event_before_total_witness:
  "(\<exists>r. last (events (executeSuite_rev1 (at_line 7) plain_suite)) = SuiteAfter r
        \<and> SuiteResult.total r = 0 \<and> success r = 2)
   \<and> SuiteResult.total (result (executeSuite_rev1 (at_line 7) plain_suite)) = 2"
proof -
  have "success (result (executeSuite_rev1 (at_line 7) plain_suite)) = 2"
    "fail (result (executeSuite_rev1 (at_line 7) plain_suite)) = 0"
    by (simp_all add: executeSuite_rev1_def executeSuite_rev1_catch_def
        executeSuite_rev1_try_def affixProcess_def plain_suite_def counting_suite_def
        initial_run_def initial_result_def executeTest_rev1_def a_test_def Let_def
        record_test_def)
  with after_event_before_total[of "at_line 7" plain_suite] show ?thesis by simp
qed




section \<open>The suite run of the later revision\<close>

text \<open>
  The same facts for \<^verbatim>\<open>executeSuite\<close> of runner/execute/execute.ts, whose phase manager is
  modelled from the spec. Here an exception leaving \<^verbatim>\<open>executeTest\<close> also aborts the run.
\<close>

lemma executeTest_events:
  "executeTest rfp methods i t = (evs, i', out) \<Longrightarrow>
     started evs = [t] \<and>
     (case out of
        Inl err \<Rightarrow> finished evs = []
      | Inr ret \<Rightarrow> finished evs = filter (\<lambda>r. status r \<noteq> Skip) [ret]
                  \<and> tr_methodName ret = tc_methodName t)"
  by (auto simp: executeTest_def Let_def started_append finished_append AssertUtil_add_def
        started_assertions finished_assertions
      split: if_splits sum.splits option.splits prod.splits settled.splits)

lemma phases_affixed [simp]:
  "startPhase rfp PhaseAll suite st = affixProcess rfp BeforeAll suite st"
  "startPhase rfp PhaseEach suite st = affixProcess rfp BeforeEach suite st"
  "endPhase rfp PhaseAll suite st = affixProcess rfp AfterAll suite st"
  "endPhase rfp PhaseEach suite st = affixProcess rfp AfterEach suite st"
  by (simp_all add: startPhase_def endPhase_def)

lemma loop_shape_later:
  "executeSuite_loop rfp suite ts st = (x, st') \<Longrightarrow> loop_shape ts x st st'"
proof (induction ts arbitrary: st x st')
  case Nil
  then show ?case by (auto simp: loop_shape_def)
next
  case (Cons t ts)
  obtain x1 st1 where a1: "affixProcess rfp BeforeEach suite st = (x1, st1)"
    by (cases "affixProcess rfp BeforeEach suite st")
  note c1 = affixProcess_counts[OF a1]
  note s1 = affixProcess_shape[OF a1]
  show ?case
  proof (cases x1)
    case (Some e)
    with Cons.prems a1 have xs: "x = Some e" "st' = st1" by auto
    have "e = BREAKOUT \<longrightarrow> breakout_shape (t # ts) [] st st1"
      using a1 Some breakout_after[where ?st2.0 = st and st = st and rs = "[]"] by auto
    with xs c1 show ?thesis
      unfolding loop_shape_def
      by (intro exI[of _ "[]"]) (auto split: exn.splits)
  next
    case None
    with s1 have same1: "events st1 = events st" "result st1 = result st" by auto
    obtain evs i2 out where
      t1: "executeTest rfp (sc_methods suite) (inst st1) t = (evs, i2, out)"
      by (cases "executeTest rfp (sc_methods suite) (inst st1) t")
    note e1 = executeTest_events[OF t1]
    show ?thesis
    proof (cases out)
      case (Inl err)
      with Cons.prems a1 None t1 have "x = Some (Uncaught err)"
        "st' = st1\<lparr>events := events st1 @ evs, inst := i2\<rparr>" by auto
      with same1 show ?thesis
        unfolding loop_shape_def by (intro exI[of _ "[]"]) auto
    next
      case (Inr ret)
      let ?st2 = "st1\<lparr>events := events st1 @ evs, inst := i2,
                       result := record_test ret (result st1)\<rparr>"
      from e1 Inr same1 have st2:
        "tests (result ?st2) = tests (result st) @ [ret]"
        "started (events ?st2) = started (events st) @ [t]"
        "finished (events ?st2) = finished (events st) @ filter (\<lambda>r. status r \<noteq> Skip) [ret]"
        "counted (result ?st2) = counted (result st) + 1"
        "tr_methodName ret = tc_methodName t"
        "SuiteResult.total (result ?st2) = SuiteResult.total (result st)"
        by (auto simp: record_test_tests record_test_counts started_append finished_append)
      obtain x3 st3 where a3: "affixProcess rfp AfterEach suite ?st2 = (x3, st3)"
        by (cases "affixProcess rfp AfterEach suite ?st2")
      note c3 = affixProcess_counts[OF a3]
      note s3 = affixProcess_shape[OF a3]
      show ?thesis
      proof (cases x3)
        case (Some e)
        with Cons.prems a1 None t1 Inr a3 have xs: "x = Some e" "st' = st3" by auto
        have "e = BREAKOUT \<longrightarrow> breakout_shape (t # ts) [ret] st st3"
          using a3 Some st2 breakout_after[where ?st2.0 = "?st2" and st = st and rs = "[ret]"]
          by auto
        with xs c3 st2 show ?thesis
          unfolding loop_shape_def
          by (intro exI[of _ "[ret]"]) (auto split: exn.splits)
      next
        case N3: None
        with s3 have same3: "events st3 = events ?st2" "result st3 = result ?st2" by auto
        from N3 Cons.prems a1 None t1 Inr a3
        have "executeSuite_loop rfp suite ts st3 = (x, st')" by simp
        from Cons.IH[OF this] obtain rs where rs:
          "length rs \<le> length ts"
          "map tr_methodName rs = map tc_methodName (take (length rs) ts)"
          "counted (result st') = counted (result st3) + length rs"
          "SuiteResult.total (result st') = SuiteResult.total (result st3)"
          "case x of
             None \<Rightarrow> length rs = length ts
                \<and> tests (result st') = tests (result st3) @ rs
                \<and> started (events st') = started (events st3) @ ts
                \<and> finished (events st')
                    = finished (events st3) @ filter (\<lambda>r. status r \<noteq> Skip) rs
           | Some BREAKOUT \<Rightarrow> breakout_shape ts rs st3 st'
           | Some (Uncaught err) \<Rightarrow> True"
          unfolding loop_shape_def by blast
        show ?thesis
          unfolding loop_shape_def
        proof (intro exI[of _ "ret # rs"] conjI)
          show "length (ret # rs) \<le> length (t # ts)" using rs(1) by simp
          show "map tr_methodName (ret # rs)
                  = map tc_methodName (take (length (ret # rs)) (t # ts))"
            using rs(2) st2(5) by simp
          show "counted (result st') = counted (result st) + length (ret # rs)"
            using rs(3) same3 st2(4) by simp
          show "SuiteResult.total (result st') = SuiteResult.total (result st)"
            using rs(4) same3 st2(6) by simp
          show "case x of
             None \<Rightarrow> length (ret # rs) = length (t # ts)
                \<and> tests (result st') = tests (result st) @ (ret # rs)
                \<and> started (events st') = started (events st) @ (t # ts)
                \<and> finished (events st')
                    = finished (events st) @ filter (\<lambda>r. status r \<noteq> Skip) (ret # rs)
           | Some BREAKOUT \<Rightarrow> breakout_shape (t # ts) (ret # rs) st st'
           | Some (Uncaught err) \<Rightarrow> True"
          proof (cases x)
            case None
            with rs(5) same3 st2 show ?thesis by auto
          next
            case (Some e)
            show ?thesis
            proof (cases e)
              case BREAKOUT
              with Some rs(5) have "breakout_shape ts rs st3 st'" by simp
              then have "breakout_shape (t # ts) (ret # rs) st st'"
                unfolding breakout_shape_def using same3 st2 by auto
              with Some BREAKOUT show ?thesis by simp
            next
              case (Uncaught err)
              with Some show ?thesis by simp
            qed
          qed
        qed
      qed
    qed
  qed
qed

lemma try_shape_later:
  assumes "executeSuite_try rfp suite st = (x, st')"
  shows "\<exists>rs. length rs \<le> length (sc_tests suite)
        \<and> counted (result st') = counted (result st) + length rs
        \<and> SuiteResult.total (result st') = SuiteResult.total (result st)
        \<and> (x = None \<longrightarrow> length rs = length (sc_tests suite))
        \<and> (x = Some BREAKOUT \<longrightarrow>
             map tr_methodName rs = map tc_methodName (take (length rs) (sc_tests suite))
             \<and> breakout_shape (sc_tests suite) rs st st')"
proof -
  obtain x1 st1 where a1: "affixProcess rfp BeforeAll suite st = (x1, st1)"
    by (cases "affixProcess rfp BeforeAll suite st")
  note c1 = affixProcess_counts[OF a1]
  show ?thesis
  proof (cases x1)
    case (Some e)
    with assms a1 have st': "st' = st1" and x: "x = Some e"
      by (auto simp: executeSuite_try_def)
    have "e = BREAKOUT \<longrightarrow> breakout_shape (sc_tests suite) [] st st1"
      using a1 Some breakout_after[where ?st2.0 = st and rs = "[]" and st = st] by auto
    with st' x c1 show ?thesis by (intro exI[of _ "[]"]) auto
  next
    case None
    with affixProcess_shape[OF a1]
    have same1: "events st1 = events st" "result st1 = result st" by auto
    obtain x2 st2 where l: "executeSuite_loop rfp suite (sc_tests suite) st1 = (x2, st2)"
      by (cases "executeSuite_loop rfp suite (sc_tests suite) st1")
    from loop_shape_later[OF l] obtain rs where rs:
      "length rs \<le> length (sc_tests suite)"
      "map tr_methodName rs = map tc_methodName (take (length rs) (sc_tests suite))"
      "counted (result st2) = counted (result st1) + length rs"
      "SuiteResult.total (result st2) = SuiteResult.total (result st1)"
      "case x2 of
         None \<Rightarrow> length rs = length (sc_tests suite)
            \<and> tests (result st2) = tests (result st1) @ rs
            \<and> started (events st2) = started (events st1) @ sc_tests suite
            \<and> finished (events st2)
                = finished (events st1) @ filter (\<lambda>r. status r \<noteq> Skip) rs
       | Some BREAKOUT \<Rightarrow> breakout_shape (sc_tests suite) rs st1 st2
       | Some (Uncaught err) \<Rightarrow> True"
      unfolding loop_shape_def by blast
    show ?thesis
    proof (cases x2)
      case (Some e)
      with assms a1 None l have "st' = st2" "x = Some e"
        by (auto simp: executeSuite_try_def)
      with rs Some same1 show ?thesis
        by (intro exI[of _ rs]) (auto simp: breakout_shape_def)
    next
      case N2: None
      with assms a1 None l have a3: "affixProcess rfp AfterAll suite st2 = (x, st')"
        by (simp add: executeSuite_try_def)
      from N2 rs(5) same1 have pre:
        "tests (result st2) = tests (result st) @ rs"
        "started (events st2) = started (events st) @ take (length rs) (sc_tests suite)"
        "finished (events st2) = finished (events st) @ filter (\<lambda>r. status r \<noteq> Skip) rs"
        "length rs = length (sc_tests suite)"
        by auto
      have "x = Some BREAKOUT \<longrightarrow> breakout_shape (sc_tests suite) rs st st'"
        using breakout_after[OF _ pre(1,2,3)] a3 by auto
      with affixProcess_counts[OF a3] rs same1 pre(4) show ?thesis
        by (intro exI[of _ rs]) auto
    qed
  qed
qed

lemma onError_counts:
  "counted (result (onError rfp suite e st)) = counted (result st)
   \<and> SuiteResult.total (result (onError rfp suite e st)) = SuiteResult.total (result st)"
  by (auto simp: onError_def counted_def split: exn.splits prod.splits)

lemma executeSuite_later_counts:
  "SuiteResult.total (result (executeSuite rfp suite))
     = success (result (executeSuite rfp suite)) + fail (result (executeSuite rfp suite))
   \<and> success (result (executeSuite rfp suite)) + fail (result (executeSuite rfp suite))
       + skip (result (executeSuite rfp suite)) \<le> length (sc_tests suite)
   \<and> (fst (executeSuite_try rfp suite (initial_run suite)) = None \<longrightarrow>
        success (result (executeSuite rfp suite)) + fail (result (executeSuite rfp suite))
          + skip (result (executeSuite rfp suite)) = length (sc_tests suite))"
proof -
  let ?r = "result (executeSuite rfp suite)"
  obtain x st where t: "executeSuite_try rfp suite (initial_run suite) = (x, st)"
    by (cases "executeSuite_try rfp suite (initial_run suite)")
  from try_shape_later[OF t] obtain rs :: "TestResult list" where rs:
    "length rs \<le> length (sc_tests suite)"
    "counted (result st) = counted (result (initial_run suite)) + length rs"
    "x = None \<longrightarrow> length rs = length (sc_tests suite)"
    by blast
  define st1 where "st1 = (case x of None \<Rightarrow> st | Some e \<Rightarrow> onError rfp suite e st)"
  have out: "?r = (result st1)\<lparr>SuiteResult.total := success (result st1) + fail (result st1)\<rparr>"
    using t by (simp add: executeSuite_def Let_def st1_def split: option.splits)
  have "counted (result st1) = counted (result st)"
    using onError_counts[of rfp suite _ st] by (simp add: st1_def split: option.splits)
  moreover have "counted ?r = counted (result st1)"
    by (simp add: out counted_def)
  ultimately have k: "counted ?r = length rs"
    using rs(2) by (simp add: initial_run_empty)
  have tot: "SuiteResult.total ?r = success ?r + fail ?r"
    by (simp add: out)
  have x: "fst (executeSuite_try rfp suite (initial_run suite)) = x"
    using t by simp
  from k rs(1) rs(3) tot x show ?thesis
    by (simp add: counted_def)
qed

lemma executeSuite_later_after_event:
  "last (events (executeSuite rfp suite))
     = SuiteAfter ((result (executeSuite rfp suite))\<lparr>SuiteResult.total := 0\<rparr>)"
proof -
  obtain x st where t: "executeSuite_try rfp suite (initial_run suite) = (x, st)"
    by (cases "executeSuite_try rfp suite (initial_run suite)")
  define st1 where "st1 = (case x of None \<Rightarrow> st | Some e \<Rightarrow> onError rfp suite e st)"
  from try_shape_later[OF t] onError_counts[of rfp suite _ st]
  have "SuiteResult.total (result st1) = 0"
    by (auto simp: initial_run_empty st1_def split: option.splits)
  then have "(result st1)\<lparr>SuiteResult.total := 0\<rparr> = result st1"
    by (metis SuiteResult.surjective SuiteResult.update_convs(4))
  with t show ?thesis
    by (simp add: executeSuite_def Let_def st1_def split: option.splits)
qed

text \<open>
  In a suite run the exception of C3 reaches the \<^verbatim>\<open>catch\<close> of \<^verbatim>\<open>executeSuite\<close>: the test
  that expected an error and returned normally is not counted, the second test is never
  started, and the only result is the suite-level failure \<^verbatim>\<open>all\<close>.
\<close>

lemma expecting_suite_aborted:
  "map tr_methodName (tests (result (executeSuite (at_line 7) expecting_suite))) = [''all'']
   \<and> map tc_methodName (started (events (executeSuite (at_line 7) expecting_suite)))
       = [''check'', ''all'']
   \<and> counted (result (executeSuite (at_line 7) expecting_suite)) = 0
   \<and> length (sc_tests expecting_suite) = 2"
  by (simp add: executeSuite_def executeSuite_try_def startPhase_def endPhase_def onError_def
      affixProcess_def expecting_suite_def plain_suite_def counting_suite_def initial_run_def
      initial_result_def executeTest_def checkError_def a_test_def Let_def
      generateSuiteError_def at_line_def record_test_def new_Error_def counted_def)

section \<open>The orchestrator\<close>

text \<open>
  With a bound that is not negative, the pending map never holds more entries than the
  bound, in any state the loop passes through.
\<close>

lemma pending_bounded:
  assumes "0 \<le> bound" and "reachable bound first child files st"
  shows "int (length (pending st)) \<le> bound"
  using assms(2)
proof (induction rule: reachable.induct)
  case start
  with assms(1) show ?case by simp
next
  case (step st st')
  have "length (filter P (pending st)) \<le> length (pending st)" for P
    by simp
  with step show ?case
    by (auto simp: exec_iteration_def Let_def spawnFile_def
        split: if_splits prod.splits sum.splits intro: order_trans[OF _ step.IH])
qed

lemma sum_list_remove_key:
  "distinct (map fst ps) \<Longrightarrow> (n, a) \<in> set ps \<Longrightarrow>
     sum_list (map g ps)
       = (g (n, a) :: nat) + sum_list (map g (filter (\<lambda>p. fst p \<noteq> n) ps))"
proof (induction ps)
  case Nil
  then show ?case by simp
next
  case (Cons p ps)
  show ?case
  proof (cases "p = (n, a)")
    case True
    with Cons.prems have "\<forall>q \<in> set ps. fst q \<noteq> n" by (auto simp: image_iff)
    then have "filter (\<lambda>p. fst p \<noteq> n) ps = ps" by (simp add: filter_id_conv)
    with True show ?thesis by simp
  next
    case False
    with Cons.prems have "(n, a) \<in> set ps" "fst p \<noteq> n" by (auto simp: image_iff)
    with Cons show ?thesis by simp
  qed
qed


lemma await_all_succeeds:
  "\<forall>p \<in> set ps. \<exists>r. snd p = Inr r \<Longrightarrow>
     \<exists>final. await_all ps = Inr final
       \<and> sum_list (map (\<lambda>d. c (sf_results d)) final) = sum_list (map (\<lambda>p. c (sent (snd p))) ps)"
proof (induction ps)
  case Nil
  then show ?case by simp
next
  case (Cons p ps)
  obtain n a where p: "p = (n, a)" by (cases p)
  from Cons.prems p obtain r where r: "a = Inr r" by auto
  from Cons obtain final where "await_all ps = Inr final"
    "sum_list (map (\<lambda>d. c (sf_results d)) final) = sum_list (map (\<lambda>p. c (sent (snd p))) ps)"
    by auto
  with p r show ?case by (simp add: spawnFile_def sent_def)
qed

lemma merge_all_sum:
  assumes "\<And>a b. c (merge a (Suites b)) = c a + (c b :: nat)"
  shows "c (merge_all rs final) = c rs + sum_list (map (\<lambda>d. c (sf_results d)) final)"
  by (induction final arbitrary: rs) (simp_all del: merge.simps add: assms)

lemma exec_loop_sums:
  assumes additive: "\<And>a b. c (merge a (Suites b)) = c a + (c b :: nat)"
  shows "1 \<le> bound \<Longrightarrow> \<forall>f \<in> set files. \<exists>r. child f = Inr r \<Longrightarrow>
         dispatch_inv c child files st \<Longrightarrow>
         \<exists>res. exec_loop bound first child files st = Returns res
           \<and> c res = sum_list (map (\<lambda>f. c (sent (child f))) files)"
proof (induction bound first child files st rule: exec_loop.induct)
  case (1 bound first child files st)
  note bound = "1.prems"(1) and succeed = "1.prems"(2) and inv = "1.prems"(3)
  from inv have pos: "position st \<le> length files"
    and dist: "distinct (map fst (pending st))"
    and keys: "\<forall>p \<in> set (pending st). fst p < position st \<and> snd p = child (files ! fst p)"
    and sum: "c (results st) + sum_list (map (\<lambda>p. c (sent (snd p))) (pending st))
          = sum_list (map (\<lambda>f. c (sent (child f))) (take (position st) files))"
    by (simp_all add: dispatch_inv_def)
  have answered: "\<exists>r. snd p = Inr r" if "p \<in> set (pending st)" for p
  proof -
    from keys that pos have "fst p < length files" "snd p = child (files ! fst p)" by auto
    with succeed show ?thesis by (metis nth_mem)
  qed
  show ?case
  proof (cases "position st < length files")
    case more: True
    have "\<exists>st'. exec_iteration bound first child files st = Continue st'
             \<and> dispatch_inv c child files st'"
    proof (cases "int (length (pending st)) < bound")
      case True
      let ?st' = "st\<lparr>position := position st + 1,
                     pending := pending st @ [(position st, child (files ! position st))]\<rparr>"
      have "exec_iteration bound first child files st = Continue ?st'"
        using True by (simp add: exec_iteration_def Let_def)
      moreover have "dispatch_inv c child files ?st'"
        using more dist keys sum
        by (auto simp: dispatch_inv_def take_Suc_conv_app_nth less_Suc_eq)
      ultimately show ?thesis by blast
    next
      case False
      with bound have nonempty: "pending st \<noteq> []" by auto
      let ?k = "first (position st) (map fst (pending st)) mod length (pending st)"
      from nonempty have k: "?k < length (pending st)" by simp
      obtain n a where picked: "pending st ! ?k = (n, a)" by (cases "pending st ! ?k")
      with k have mem: "(n, a) \<in> set (pending st)" by (metis nth_mem)
      from answered[OF mem] obtain r where r: "a = Inr r" by auto
      let ?st' = "st\<lparr>results := merge (results st) (Suites r),
                     pending := filter (\<lambda>p. fst p \<noteq> n) (pending st)\<rparr>"
      have "exec_iteration bound first child files st = Continue ?st'"
        using False nonempty picked r by (simp add: exec_iteration_def spawnFile_def)
      moreover have "dispatch_inv c child files ?st'"
        using pos dist keys sum sum_list_remove_key[OF dist mem, of "\<lambda>p. c (sent (snd p))"] r
        by (simp add: dispatch_inv_def additive distinct_map_filter sent_def del: merge.simps)
      ultimately show ?thesis by blast
    qed
    then obtain st' where st': "exec_iteration bound first child files st = Continue st'"
      "dispatch_inv c child files st'" by blast
    from "1.IH"[OF more st'(1) bound succeed st'(2)] more st'(1)
    show ?thesis by (subst exec_loop.simps) simp
  next
    case False
    with pos have full: "take (position st) files = files" by simp
    from await_all_succeeds[of "pending st" c] answered obtain final where
      "await_all (pending st) = Inr final"
      "sum_list (map (\<lambda>d. c (sf_results d)) final)
         = sum_list (map (\<lambda>p. c (sent (snd p))) (pending st))"
      by blast
    with False sum full merge_all_sum[of c "results st" final, OF additive]
    show ?thesis by (subst exec_loop.simps) simp
  qed
qed

text \<open>
  With a bound of at least 1 and every child answering, the loop returns, and each
  counter of the aggregate is the sum of that counter over the files' own results,
  whatever the order in which the children finish.
\<close>

lemma dispatch_sums:
  assumes "1 \<le> bound" and "\<forall>f \<in> set files. child f = Inr (answer f)"
  shows "\<exists>res. exec_loop bound first child files
                  \<lparr>position = 0, pending = [], results = empty_results\<rparr> = Returns res
           \<and> passed res = sum_list (map (\<lambda>f. passed (answer f)) files)
           \<and> failed res = sum_list (map (\<lambda>f. failed (answer f)) files)
           \<and> skipped res = sum_list (map (\<lambda>f. skipped (answer f)) files)
           \<and> Counts.total res = sum_list (map (\<lambda>f. Counts.total (answer f)) files)"
proof -
  let ?init = "\<lparr>position = 0, pending = [], results = empty_results\<rparr>"
  have succeed: "\<forall>f \<in> set files. \<exists>r. child f = Inr r" using assms(2) by auto
  have same: "sum_list (map (\<lambda>f. c (sent (child f))) files)
                = sum_list (map (\<lambda>f. c (answer f)) files)"
    for c :: "SuitesResult \<Rightarrow> nat"
    using assms(2) by (intro arg_cong[where f = sum_list] map_cong) (auto simp: sent_def)
  have inv: "dispatch_inv c child files ?init" if "c empty_results = 0" for c
    using that by (simp add: dispatch_inv_def)
  have e: "passed empty_results = 0" "failed empty_results = 0" "skipped empty_results = 0"
    "Counts.total empty_results = 0"
    by (simp_all add: empty_results_def)
  from exec_loop_sums[of passed, OF _ assms(1) succeed inv[of passed], of first] e(1)
  obtain res where res: "exec_loop bound first child files ?init = Returns res"
    "passed res = sum_list (map (\<lambda>f. passed (sent (child f))) files)" by auto
  from exec_loop_sums[of failed, OF _ assms(1) succeed inv[of failed], of first] e(2) res(1)
  have f: "failed res = sum_list (map (\<lambda>f. failed (sent (child f))) files)" by auto
  from exec_loop_sums[of skipped, OF _ assms(1) succeed inv[of skipped], of first] e(3) res(1)
  have s: "skipped res = sum_list (map (\<lambda>f. skipped (sent (child f))) files)" by auto
  from exec_loop_sums[of Counts.total, OF _ assms(1) succeed inv[of Counts.total], of first]
    e(4) res(1)
  have t: "Counts.total res = sum_list (map (\<lambda>f. Counts.total (sent (child f))) files)" by auto
  from res f s t show ?thesis by (simp add: same)
qed

lemma exec_sums:
  assumes "2 \<le> cpus" and "length files \<noteq> 1" and "\<forall>f \<in> set files. child f = Inr (answer f)"
  shows "\<exists>res. exec cpus first load child files = Returns res
           \<and> passed res = sum_list (map (\<lambda>f. passed (answer f)) files)
           \<and> failed res = sum_list (map (\<lambda>f. failed (answer f)) files)
           \<and> skipped res = sum_list (map (\<lambda>f. skipped (answer f)) files)
           \<and> Counts.total res = sum_list (map (\<lambda>f. Counts.total (answer f)) files)"
proof -
  from assms(1) have "1 \<le> executors cpus" by (simp add: executors_def)
  from dispatch_sums[OF this assms(3), of first]
  have loop: "\<exists>res. exec_loop (executors cpus) first child files
                  \<lparr>position = 0, pending = [], results = empty_results\<rparr> = Returns res
           \<and> passed res = sum_list (map (\<lambda>f. passed (answer f)) files)
           \<and> failed res = sum_list (map (\<lambda>f. failed (answer f)) files)
           \<and> skipped res = sum_list (map (\<lambda>f. skipped (answer f)) files)
           \<and> Counts.total res = sum_list (map (\<lambda>f. Counts.total (answer f)) files)" .
  have "exec cpus first load child files
          = exec_loop (executors cpus) first child files
              \<lparr>position = 0, pending = [], results = empty_results\<rparr>"
    using assms(2) by (auto simp: exec_def split: list.splits)
  with loop show ?thesis by simp
qed

text \<open>
  C5. The claim asks for a concurrency bound of the CPU count minus 1 with a minimum of
  1, under which the dispatch loop ends with the sum of the files' results. The code
  takes the CPU count minus 1 with no minimum: on one CPU the bound is 0, no file of a
  multi-file run is ever dispatched, and the loop waits for the first of no pending
  promises, which never settles, whatever the files and the children are.
\<close>

theorem single_cpu_never_dispatches:
  "executors 1 = 0 \<and> exec 1 first load child (file # other # others) = NeverSettles"
  by (simp add: exec_def executors_def exec_iteration_def)

text \<open>
  C6, as stated, fails: a single file whose only test throws has an aggregate failed
  count of 1, and the process exits with code 0.
\<close>

theorem exit_code_counterexample:
  "exec 4 (\<lambda>p ks. 0) (\<lambda>file. [failing_suite]) (\<lambda>file. Inl []) [''sample.ts'']
     = Exits 0 (executeFile [failing_suite])
   \<and> failed (executeFile [failing_suite]) = 1"
  by (simp add: exec_def executeFile_def failing_suite_def Executor_executeSuite_def
      Executor_executeTest_def count_status_def empty_results_def Let_def)

text \<open>
  C6, amended. On the single-file in-process path \<^verbatim>\<open>Executor.exec\<close> runs the file and exits
  with code 0 whatever the file's result is: the exit code does not depend on the
  aggregate failed count.
\<close>

theorem single_file_exits_zero:
  "exec cpus first load child [file] = Exits 0 (executeFile (load file))"
  by (simp add: exec_def)

end
